theory Spec2Isabelle
  imports Complex_Main "HOL-Library.Word"
begin

unbundle bit_operations_syntax

section \<open>Numbers of the program\<close>

text \<open>
  A C++ \<open>float\<close> is a value of an abstract type \<open>'f\<close>; the arithmetic the program
  performs on it is a parameter of every function, so that nothing is assumed of
  floating-point arithmetic (no associativity, no exactness). The order of the
  operations is the order of the source. An integer literal or an \<open>int\<close> used where a
  \<open>float\<close> is expected is \<open>fof_int\<close> (the conversion is what C++ does there);
  \<open>x > y\<close> is \<open>flt y x\<close> and \<open>x >= y\<close> is \<open>fle y x\<close>.
\<close>

record 'f float_ops =
  fadd :: "'f \<Rightarrow> 'f \<Rightarrow> 'f"
  fsub :: "'f \<Rightarrow> 'f \<Rightarrow> 'f"
  fmul :: "'f \<Rightarrow> 'f \<Rightarrow> 'f"
  fdiv :: "'f \<Rightarrow> 'f \<Rightarrow> 'f"
  fneg :: "'f \<Rightarrow> 'f"
  flt :: "'f \<Rightarrow> 'f \<Rightarrow> bool"
  fle :: "'f \<Rightarrow> 'f \<Rightarrow> bool"
  fof_int :: "int \<Rightarrow> 'f"
  ffloor :: "'f \<Rightarrow> int"
  fexp :: "'f \<Rightarrow> 'f"
  ftanh :: "'f \<Rightarrow> 'f"
  f0_01 :: "'f"

text \<open>\<open>std::max(a, b)\<close> is \<open>(a < b) ? b : a\<close>.\<close>

definition fmax :: "'f float_ops \<Rightarrow> 'f \<Rightarrow> 'f \<Rightarrow> 'f" where
  "fmax F a b = (if flt F a b then b else a)"

section \<open>Layer\<close>

text \<open>
  \<open>enum class ActivationType { Sigmoid = 's', Tanh = 't', ReLU = 'r', LeakyReLU = 'l' }\<close>
  has the underlying type \<open>int\<close>; \<open>load\<close> stores whatever the file holds into it, and
  both switches have a \<open>default\<close> branch, so the type is the underlying \<open>int\<close> with its
  four named values.
\<close>

type_synonym ActivationType = int

definition Sigmoid :: ActivationType where
  "Sigmoid = of_char CHR ''s''"

definition Tanh :: ActivationType where
  "Tanh = of_char CHR ''t''"

definition ReLU :: ActivationType where
  "ReLU = of_char CHR ''r''"

definition LeakyReLU :: ActivationType where
  "LeakyReLU = of_char CHR ''l''"

record 'f Layer =
  numNodesIn :: int
  numNodesOut :: int
  actType :: ActivationType
  weights :: "'f list"
  biases :: "'f list"
  lastInputs :: "'f list"
  lastOutputs :: "'f list"

definition activation :: "'f float_ops \<Rightarrow> ActivationType \<Rightarrow> 'f \<Rightarrow> 'f" where
  "activation F t x =
     (if t = Tanh then ftanh F x
      else if t = Sigmoid then
        fdiv F (fof_int F 1) (fadd F (fof_int F 1) (fexp F (fneg F x)))
      else if t = ReLU then fmax F (fof_int F 0) x
      else if t = LeakyReLU then (if flt F (fof_int F 0) x then x else fmul F (f0_01 F) x)
      else x)"

definition activationDerivative :: "'f float_ops \<Rightarrow> ActivationType \<Rightarrow> 'f \<Rightarrow> 'f" where
  "activationDerivative F t y =
     (if t = Tanh then fsub F (fof_int F 1) (fmul F y y)
      else if t = Sigmoid then fmul F y (fsub F (fof_int F 1) y)
      else if t = ReLU then (if flt F (fof_int F 0) y then fof_int F 1 else fof_int F 0)
      else if t = LeakyReLU then (if flt F (fof_int F 0) y then fof_int F 1 else f0_01 F)
      else fof_int F 1)"

text \<open>
  The loops \<open>for (int k = 0; k < n; k++)\<close> run over \<open>[0..<nat n]\<close>: no iteration when
  \<open>n \<le> 0\<close>. Vector reads and writes are \<open>xs ! i\<close> and \<open>xs[i := v]\<close>; an index out of
  range is undefined behaviour in the source, and the theorems below are stated
  for layers and arguments whose sizes agree (\<open>wf_Layer\<close>), where every index is in range.
\<close>

text \<open>The body of the inner loop of \<open>calculateOutput\<close>: \<open>sum += inputs[in] * weights[in * numNodesOut + out]\<close>.\<close>

definition calc_step :: "'f float_ops \<Rightarrow> 'f Layer \<Rightarrow> 'f list \<Rightarrow> nat \<Rightarrow> nat \<Rightarrow> 'f \<Rightarrow> 'f" where
  "calc_step F L inputs out i acc =
     fadd F acc (fmul F (inputs ! i) (weights L ! (i * nat (numNodesOut L) + out)))"

text \<open>The body of the outer loop: the sum starts at \<open>biases[out]\<close>, and \<open>outputs[out] = activation(sum)\<close>.\<close>

definition calc_out :: "'f float_ops \<Rightarrow> 'f Layer \<Rightarrow> 'f list \<Rightarrow> nat \<Rightarrow> 'f list \<Rightarrow> 'f list" where
  "calc_out F L inputs out outputs =
     (let acc = fold (calc_step F L inputs out) [0..<nat (numNodesIn L)] (biases L ! out)
      in outputs[out := activation F (actType L) acc])"

definition calculateOutput :: "'f float_ops \<Rightarrow> 'f Layer \<Rightarrow> 'f list \<Rightarrow> 'f Layer \<times> 'f list" where
  "calculateOutput F L inputs =
     (let L1 = L\<lparr>lastInputs := inputs\<rparr>;
          outputs0 = replicate (nat (numNodesOut L1)) (fof_int F 0);
          outputs = fold (calc_out F L1 inputs) [0..<nat (numNodesOut L1)] outputs0
      in (L1\<lparr>lastOutputs := outputs\<rparr>, outputs))"

text \<open>
  The body of the inner loop of \<open>backPropagate\<close>: the input gradient is accumulated from
  the weight as it is, then the weight is updated; \<open>learningRate * delta * lastInputs[in]\<close>
  associates to the left.
\<close>

definition bp_step :: "'f float_ops \<Rightarrow> 'f \<Rightarrow> 'f \<Rightarrow> nat \<Rightarrow> nat \<Rightarrow> 'f Layer \<times> 'f list \<Rightarrow> 'f Layer \<times> 'f list" where
  "bp_step F learningRate delta out i st =
     (let L = fst st; inputGradients = snd st;
          weightIndex = i * nat (numNodesOut L) + out;
          inputGradients1 = inputGradients[i := fadd F (inputGradients ! i) (fmul F delta (weights L ! weightIndex))];
          L1 = L\<lparr>weights := (weights L)[weightIndex :=
                 fsub F (weights L ! weightIndex) (fmul F (fmul F learningRate delta) (lastInputs L ! i))]\<rparr>
      in (L1, inputGradients1))"

text \<open>The body of the outer loop: the derivative at the stored output, delta, the bias update, the inner loop.\<close>

definition bp_out :: "'f float_ops \<Rightarrow> 'f list \<Rightarrow> 'f \<Rightarrow> nat \<Rightarrow> 'f Layer \<times> 'f list \<Rightarrow> 'f Layer \<times> 'f list" where
  "bp_out F outputGradients learningRate out st =
     (let L = fst st; inputGradients = snd st;
          derivative = activationDerivative F (actType L) (lastOutputs L ! out);
          delta = fmul F (outputGradients ! out) derivative;
          L1 = L\<lparr>biases := (biases L)[out := fsub F (biases L ! out) (fmul F learningRate delta)]\<rparr>
      in fold (bp_step F learningRate delta out) [0..<nat (numNodesIn L1)] (L1, inputGradients))"

definition backPropagate :: "'f float_ops \<Rightarrow> 'f Layer \<Rightarrow> 'f list \<Rightarrow> 'f \<Rightarrow> 'f Layer \<times> 'f list" where
  "backPropagate F L outputGradients learningRate =
     (let inputGradients = replicate (nat (numNodesIn L)) (fof_int F 0)
      in fold (bp_out F outputGradients learningRate) [0..<nat (numNodesOut L)] (L, inputGradients))"

text \<open>The invariant of a layer: \<open>weights.size() == numNodesIn * numNodesOut\<close>, \<open>biases.size() == numNodesOut\<close>.\<close>

definition wf_Layer :: "'f Layer \<Rightarrow> bool" where
  "wf_Layer L \<longleftrightarrow> 0 \<le> numNodesIn L \<and> 0 \<le> numNodesOut L \<and>
     int (length (weights L)) = numNodesIn L * numNodesOut L \<and>
     int (length (biases L)) = numNodesOut L"

text \<open>
  The words of the specification: \<open>weight[i][o]\<close> is the flattened weight at
  \<open>in * outputWidth + out\<close>, and \<open>bias[o] + \<Sigma>_i inputs[i] * weight[i][o]\<close> is the bias with
  the products added to it in the order of \<open>i\<close>.
\<close>

definition weight_at :: "'f Layer \<Rightarrow> nat \<Rightarrow> nat \<Rightarrow> 'f" where
  "weight_at L i j = weights L ! (i * nat (numNodesOut L) + j)"

definition column :: "'f Layer \<Rightarrow> nat \<Rightarrow> 'f list" where
  "column L j = map (\<lambda>i. weight_at L i j) [0..<nat (numNodesIn L)]"

definition affine_sum :: "'f float_ops \<Rightarrow> 'f \<Rightarrow> 'f list \<Rightarrow> 'f list \<Rightarrow> 'f" where
  "affine_sum F b xs ws = foldl (\<lambda>s p. fadd F s (fmul F (fst p) (snd p))) b (zip xs ws)"

text \<open>The words of the specification for the backward pass: delta of an output unit, and the gradient
  returned for an input unit, summed over the output units in order from \<open>0.0f\<close>.\<close>

definition bp_delta :: "'f float_ops \<Rightarrow> 'f Layer \<Rightarrow> 'f list \<Rightarrow> nat \<Rightarrow> 'f" where
  "bp_delta F L outputGradients j =
     fmul F (outputGradients ! j) (activationDerivative F (actType L) (lastOutputs L ! j))"

definition input_gradient :: "'f float_ops \<Rightarrow> 'f Layer \<Rightarrow> 'f list \<Rightarrow> nat \<Rightarrow> 'f" where
  "input_gradient F L outputGradients i =
     foldl (\<lambda>acc j. fadd F acc (fmul F (bp_delta F L outputGradients j) (weight_at L i j)))
       (fof_int F 0) [0..<nat (numNodesOut L)]"

section \<open>NeuralNetwork\<close>

record 'f NeuralNetwork =
  layers :: "'f Layer list"

text \<open>\<open>for (auto& layer : layers) inputs = layer.calculateOutput(inputs);\<close>\<close>

fun feedForward_loop :: "'f float_ops \<Rightarrow> 'f Layer list \<Rightarrow> 'f list \<Rightarrow> 'f Layer list \<times> 'f list" where
  "feedForward_loop F [] inputs = ([], inputs)"
| "feedForward_loop F (layer # rest) inputs =
     (let r = calculateOutput F layer inputs;
          rs = feedForward_loop F rest (snd r)
      in (fst r # fst rs, snd rs))"

definition feedForward :: "'f float_ops \<Rightarrow> 'f NeuralNetwork \<Rightarrow> 'f list \<Rightarrow> 'f NeuralNetwork \<times> 'f list" where
  "feedForward F net inputs =
     (let r = feedForward_loop F (layers net) inputs
      in (net\<lparr>layers := fst r\<rparr>, snd r))"

text \<open>The second loop of \<open>train\<close>: \<open>gradients.push_back(results[i] - targets[i])\<close>.\<close>

definition train_gradient_step :: "'f float_ops \<Rightarrow> 'f list \<Rightarrow> 'f list \<Rightarrow> nat \<Rightarrow> 'f list \<Rightarrow> 'f list" where
  "train_gradient_step F results targets i gradients =
     gradients @ [fsub F (results ! i) (targets ! i)]"

text \<open>The third loop, \<open>i\<close> from \<open>layers.size() - 1\<close> down to \<open>0\<close>:
  \<open>gradients = layers[i].backPropagate(gradients, learningRate)\<close>.\<close>

definition train_back_step :: "'f float_ops \<Rightarrow> 'f \<Rightarrow> nat \<Rightarrow> 'f Layer list \<times> 'f list \<Rightarrow> 'f Layer list \<times> 'f list" where
  "train_back_step F learningRate i st =
     (let r = backPropagate F (fst st ! i) (snd st) learningRate
      in ((fst st)[i := fst r], snd r))"

definition train :: "'f float_ops \<Rightarrow> 'f NeuralNetwork \<Rightarrow> 'f list \<Rightarrow> 'f list \<Rightarrow> 'f \<Rightarrow> 'f NeuralNetwork" where
  "train F net inputs targets learningRate =
     (let fw = feedForward F net inputs;
          net1 = fst fw; results = snd fw;
          gradients = fold (train_gradient_step F results targets) [0..<length results] [];
          st = fold (train_back_step F learningRate) (rev [0..<length (layers net1)])
                 (layers net1, gradients)
      in net1\<lparr>layers := fst st\<rparr>)"

text \<open>
  The sizes along a network: every layer satisfies its invariant, the first layer takes
  \<open>n\<close> inputs and each layer takes as many inputs as the one before it has outputs.
\<close>

fun wf_chain :: "'f Layer list \<Rightarrow> int \<Rightarrow> bool" where
  "wf_chain [] n = True"
| "wf_chain (l # ls) n = (wf_Layer l \<and> numNodesIn l = n \<and> wf_chain ls (numNodesOut l))"

text \<open>The number of floats a network returns for \<open>n\<close> inputs.\<close>

fun out_width :: "'f Layer list \<Rightarrow> int \<Rightarrow> int" where
  "out_width [] n = n"
| "out_width (l # ls) n = out_width ls (numNodesOut l)"

text \<open>
  The words of the specification for \<open>train\<close>: the initial gradient is
  \<open>results[k] - targets[k]\<close> per output unit, and the layers are visited last to first,
  each \<open>backPropagate\<close> receiving the gradient the layer after it returned.
\<close>

definition initial_gradient :: "'f float_ops \<Rightarrow> 'f list \<Rightarrow> 'f list \<Rightarrow> 'f list" where
  "initial_gradient F results targets = map (\<lambda>p. fsub F (fst p) (snd p)) (zip results targets)"

fun backward_sweep :: "'f float_ops \<Rightarrow> 'f \<Rightarrow> 'f Layer list \<Rightarrow> 'f list \<Rightarrow> 'f Layer list \<times> 'f list" where
  "backward_sweep F learningRate [] g = ([], g)"
| "backward_sweep F learningRate (l # ls) g =
     (let after = backward_sweep F learningRate ls g;
          r = backPropagate F l (snd after) learningRate
      in (fst r # fst after, snd r))"

text \<open>What neither pass changes in a layer: its widths, its activation and the sizes of its parameters.\<close>

definition shape :: "'f Layer \<Rightarrow> int \<times> int \<times> ActivationType \<times> nat \<times> nat" where
  "shape l = (numNodesIn l, numNodesOut l, actType l, length (weights l), length (biases l))"

section \<open>The model file\<close>

type_synonym byte = "8 word"

datatype fault = ShortRead | LengthError | Overflow | OutOfBounds

text \<open>
  \<open>file.write((char*)&n, sizeof(int))\<close> and \<open>file.read((char*)&n, sizeof(int))\<close>: the four
  bytes of a 32-bit \<open>int\<close>, lowest first. The host is little-endian: the dataset loader
  swaps the bytes of every big-endian header field unconditionally.
\<close>

definition int_bytes :: "int \<Rightarrow> byte list" where
  "int_bytes n = (let w = (word_of_int n :: 32 word) in
     [ucast w, ucast (drop_bit 8 w), ucast (drop_bit 16 w), ucast (drop_bit 24 w)])"

definition word_of_bytes :: "byte list \<Rightarrow> 32 word" where
  "word_of_bytes bs = ucast (bs ! 0) OR push_bit 8 (ucast (bs ! 1))
     OR push_bit 16 (ucast (bs ! 2)) OR push_bit 24 (ucast (bs ! 3))"

definition bytes_int :: "byte list \<Rightarrow> int" where
  "bytes_int bs = sint (word_of_bytes bs)"

text \<open>
  The bytes of a \<open>float\<close> object, as \<open>file.write((char*)v.data(), v.size() * sizeof(float))\<close>
  copies them out and \<open>file.read\<close> copies them back.
\<close>

record 'f float_repr =
  float_bytes :: "'f \<Rightarrow> byte list"
  bytes_float :: "byte list \<Rightarrow> 'f"

definition repr_ok :: "'f float_repr \<Rightarrow> bool" where
  "repr_ok R \<longleftrightarrow> (\<forall>x. length (float_bytes R x) = 4 \<and> bytes_float R (float_bytes R x) = x)"

text \<open>One iteration of the loop of \<open>save\<close>: five writes.\<close>

definition save_layer :: "'f float_repr \<Rightarrow> 'f Layer \<Rightarrow> byte list \<Rightarrow> byte list" where
  "save_layer R layer file =
     (let file1 = file @ int_bytes (numNodesIn layer);
          file2 = file1 @ int_bytes (numNodesOut layer);
          file3 = file2 @ int_bytes (actType layer);
          file4 = file3 @ concat (map (float_bytes R) (weights layer))
      in file4 @ concat (map (float_bytes R) (biases layer)))"

text \<open>
  \<open>save\<close> takes whether the file could be opened and returns the network, which it does
  not touch, and the bytes written, if any.
\<close>

definition save :: "'f float_repr \<Rightarrow> 'f NeuralNetwork \<Rightarrow> bool \<Rightarrow> 'f NeuralNetwork \<times> byte list option" where
  "save R net is_open =
     (if \<not> is_open then (net, None)
      else let numLayers = int (length (layers net));
               file = int_bytes numLayers
           in (net, Some (fold (save_layer R) (layers net) file)))"

text \<open>\<open>n\<close> floats from the front of the stream.\<close>

primrec read_floats :: "'f float_repr \<Rightarrow> nat \<Rightarrow> byte list \<Rightarrow> 'f list" where
  "read_floats R 0 s = []"
| "read_floats R (Suc n) s = bytes_float R (take 4 s) # read_floats R n (drop 4 s)"

text \<open>
  One iteration of the loop of \<open>load\<close>, on the rest of the stream. A read past the end
  of the stream leaves the variable as it was (indeterminate for the three header
  fields, the random initial values for the weights): \<open>ShortRead\<close>. The constructor
  computes \<open>numNodesIn * numNodesOut\<close> in \<open>int\<close> (\<open>Overflow\<close> when the product does not
  fit) and resizes to it and to \<open>numNodesOut\<close>: a negative size is a huge \<open>size_t\<close>, and
  \<open>resize\<close> throws \<open>std::length_error\<close>. A loaded layer has empty \<open>lastInputs\<close> and
  \<open>lastOutputs\<close>.
\<close>

definition load_layer :: "'f float_repr \<Rightarrow> byte list \<Rightarrow> fault + ('f Layer \<times> byte list)" where
  "load_layer R s =
     (if length s < 12 then Inl ShortRead
      else let nIn = bytes_int (take 4 s);
               nOut = bytes_int (take 4 (drop 4 s));
               act = bytes_int (take 4 (drop 8 s));
               s1 = drop 12 s
           in if nIn * nOut < - (2 ^ 31) \<or> 2 ^ 31 \<le> nIn * nOut then Inl Overflow
              else if nIn * nOut < 0 \<or> nOut < 0 then Inl LengthError
              else let nw = nat (nIn * nOut); nb = nat nOut
                   in if length s1 < 4 * nw + 4 * nb then Inl ShortRead
                      else Inr (\<lparr>numNodesIn = nIn, numNodesOut = nOut, actType = act,
                                  weights = read_floats R nw s1,
                                  biases = read_floats R nb (drop (4 * nw) s1),
                                  lastInputs = [], lastOutputs = []\<rparr>,
                                drop (4 * nw + 4 * nb) s1))"

primrec load_layers :: "'f float_repr \<Rightarrow> nat \<Rightarrow> byte list \<Rightarrow> fault + 'f Layer list" where
  "load_layers R 0 s = Inr []"
| "load_layers R (Suc n) s =
     (case load_layer R s of
        Inl e \<Rightarrow> Inl e
      | Inr r \<Rightarrow> (case load_layers R n (snd r) of
                    Inl e \<Rightarrow> Inl e
                  | Inr ls \<Rightarrow> Inr (fst r # ls)))"

text \<open>
  \<open>load\<close> takes the content of the file, \<open>None\<close> when it cannot be opened. The return on
  a file that cannot be opened comes before \<open>layers.clear()\<close>.
\<close>

definition load :: "'f float_repr \<Rightarrow> 'f NeuralNetwork \<Rightarrow> byte list option \<Rightarrow> fault + 'f NeuralNetwork" where
  "load R net file =
     (case file of
        None \<Rightarrow> Inr net
      | Some s \<Rightarrow>
          if length s < 4 then Inl ShortRead
          else let numLayers = bytes_int (take 4 s)
               in (case load_layers R (nat numLayers) (drop 4 s) of
                     Inl e \<Rightarrow> Inl e
                   | Inr ls \<Rightarrow> Inr (net\<lparr>layers := ls\<rparr>)))"

text \<open>
  The layout of the model file in the words of the specification, with the activation
  tag as one byte.
\<close>

definition spec_layer_layout :: "'f float_repr \<Rightarrow> 'f Layer \<Rightarrow> byte list" where
  "spec_layer_layout R l =
     int_bytes (numNodesIn l) @ int_bytes (numNodesOut l) @ [word_of_int (actType l)]
     @ concat (map (float_bytes R) (weights l)) @ concat (map (float_bytes R) (biases l))"

definition spec_layout :: "'f float_repr \<Rightarrow> 'f NeuralNetwork \<Rightarrow> byte list" where
  "spec_layout R net =
     int_bytes (int (length (layers net))) @ concat (map (spec_layer_layout R) (layers net))"

text \<open>
  The layout with the activation tag as the four bytes of the \<open>int\<close> under the
  enumeration; the weights row by row, the one of input \<open>i\<close> and output \<open>j\<close> at
  \<open>i * numNodesOut + j\<close>.
\<close>

definition layer_layout :: "'f float_repr \<Rightarrow> 'f Layer \<Rightarrow> byte list" where
  "layer_layout R l =
     int_bytes (numNodesIn l) @ int_bytes (numNodesOut l) @ int_bytes (actType l)
     @ concat (map (float_bytes R)
         (concat (map (\<lambda>i. map (\<lambda>j. weight_at l i j) [0..<nat (numNodesOut l)])
            [0..<nat (numNodesIn l)])))
     @ concat (map (float_bytes R) (map (\<lambda>j. biases l ! j) [0..<nat (numNodesOut l)]))"

definition model_layout :: "'f float_repr \<Rightarrow> 'f NeuralNetwork \<Rightarrow> byte list" where
  "model_layout R net =
     int_bytes (int (length (layers net))) @ concat (map (layer_layout R) (layers net))"

text \<open>What \<open>load\<close> makes of a layer: the parameters, and no stored inputs or outputs.\<close>

definition loaded :: "'f Layer \<Rightarrow> 'f Layer" where
  "loaded l = l\<lparr>lastInputs := [], lastOutputs := []\<rparr>"

text \<open>
  A network that \<open>save\<close> can write down in full: the layers satisfy their invariant and
  every \<open>int\<close> has 32 bits.
\<close>

definition int32 :: "int \<Rightarrow> bool" where
  "int32 n \<longleftrightarrow> - (2 ^ 31) \<le> n \<and> n < 2 ^ 31"

definition layer32 :: "'f Layer \<Rightarrow> bool" where
  "layer32 l \<longleftrightarrow> wf_Layer l \<and> int32 (numNodesIn l) \<and> int32 (numNodesOut l)
     \<and> int32 (numNodesIn l * numNodesOut l) \<and> int32 (actType l)"

definition wf_Network :: "'f NeuralNetwork \<Rightarrow> bool" where
  "wf_Network net \<longleftrightarrow> int32 (int (length (layers net))) \<and> (\<forall>l \<in> set (layers net). layer32 l)"

section \<open>MnistLoader\<close>

record 'f Image =
  pixels :: "'f list"
  target :: "'f list"
  label :: int

definition swapEndian :: "32 word \<Rightarrow> 32 word" where
  "swapEndian val =
     (push_bit 24 val AND 0xFF000000) OR (push_bit 8 val AND 0x00FF0000) OR
     (drop_bit 8 val AND 0x0000FF00) OR (drop_bit 24 val AND 0x000000FF)"

text \<open>A write into a vector that checks its index: the source has no such check, and
  \<open>OutOfBounds\<close> stands for the write outside the vector.\<close>

definition store :: "'a list \<Rightarrow> int \<Rightarrow> 'a \<Rightarrow> fault + 'a list" where
  "store xs i v = (if 0 \<le> i \<and> i < int (length xs) then Inr (xs[nat i := v]) else Inl OutOfBounds)"

text \<open>\<open>img.target.assign(10, 0.0f); if (img.label >= 0 && img.label < 10) img.target[img.label] = 1.0f;\<close>\<close>

definition make_target :: "'f float_ops \<Rightarrow> int \<Rightarrow> fault + 'f list" where
  "make_target F lab =
     (let tgt = replicate 10 (fof_int F 0)
      in if 0 \<le> lab \<and> lab < 10 then store tgt lab (fof_int F 1) else Inr tgt)"

text \<open>\<open>img.pixels.push_back(static_cast<float>(pixelBuffer[j]) / 255.0f)\<close>\<close>

definition push_pixel :: "'f float_ops \<Rightarrow> byte list \<Rightarrow> nat \<Rightarrow> 'f list \<Rightarrow> 'f list" where
  "push_pixel F pixelBuffer j px = px @ [fdiv F (fof_int F (uint (pixelBuffer ! j))) (fof_int F 255)]"

text \<open>
  One iteration of the loop over the records, on the rest of the two streams. A label
  read past the end of the label stream leaves \<open>labelByte\<close> indeterminate: \<open>ShortRead\<close>.
  The pixel buffer is created zeroed, and a read past the end of the image stream
  fills what the stream still has and leaves the stream without bytes.
\<close>

definition read_record :: "'f float_ops \<Rightarrow> nat \<Rightarrow> byte list \<Rightarrow> byte list \<Rightarrow> fault + ('f Image \<times> byte list \<times> byte list)" where
  "read_record F imageSize imgFile lblFile =
     (if length lblFile < 1 then Inl ShortRead
      else let labelByte = lblFile ! 0;
               lab = uint labelByte
           in (case make_target F lab of
                 Inl e \<Rightarrow> Inl e
               | Inr tgt \<Rightarrow>
                   let pixelBuffer = take imageSize imgFile @ replicate (imageSize - length imgFile) 0;
                       px = fold (push_pixel F pixelBuffer) [0..<imageSize] []
                   in Inr (\<lparr>pixels = px, target = tgt, label = lab\<rparr>,
                           drop imageSize imgFile, drop 1 lblFile)))"

primrec read_records :: "'f float_ops \<Rightarrow> nat \<Rightarrow> nat \<Rightarrow> byte list \<Rightarrow> byte list \<Rightarrow> fault + 'f Image list" where
  "read_records F imageSize 0 imgFile lblFile = Inr []"
| "read_records F imageSize (Suc n) imgFile lblFile =
     (case read_record F imageSize imgFile lblFile of
        Inl e \<Rightarrow> Inl e
      | Inr r \<Rightarrow> (case read_records F imageSize n (fst (snd r)) (snd (snd r)) of
                    Inl e \<Rightarrow> Inl e
                  | Inr ims \<Rightarrow> Inr (fst r # ims)))"

text \<open>
  \<open>MnistLoader::load\<close> takes the contents of the two files, \<open>None\<close> for a file that cannot
  be opened. A header shorter than its fields leaves them indeterminate: \<open>ShortRead\<close>.
  \<open>int imageSize = rows * cols\<close> is the product of two \<open>uint32_t\<close> read as an \<open>int\<close>; when
  it is negative, \<open>img.pixels.reserve(imageSize)\<close> in the first iteration throws
  \<open>std::length_error\<close>.
\<close>

definition MnistLoader_load :: "'f float_ops \<Rightarrow> byte list option \<Rightarrow> byte list option \<Rightarrow> fault + 'f Image list" where
  "MnistLoader_load F imagePath labelPath =
     (case imagePath of
        None \<Rightarrow> Inr []
      | Some imgFile \<Rightarrow>
         (case labelPath of
            None \<Rightarrow> Inr []
          | Some lblFile \<Rightarrow>
              if length imgFile < 16 \<or> length lblFile < 8 then Inl ShortRead
              else let magicImg = swapEndian (word_of_bytes (take 4 imgFile));
                       numImg = swapEndian (word_of_bytes (take 4 (drop 4 imgFile)));
                       rows = swapEndian (word_of_bytes (take 4 (drop 8 imgFile)));
                       cols = swapEndian (word_of_bytes (take 4 (drop 12 imgFile)));
                       magicLbl = swapEndian (word_of_bytes (take 4 lblFile));
                       numLbl = swapEndian (word_of_bytes (take 4 (drop 4 lblFile)))
                   in if magicImg \<noteq> 2051 \<or> magicLbl \<noteq> 2049 then Inr []
                      else if numImg \<noteq> numLbl then Inr []
                      else let imageSize = sint (rows * cols)
                           in if 0 < unat numImg \<and> imageSize < 0 then Inl LengthError
                              else read_records F (nat imageSize) (unat numImg)
                                     (drop 16 imgFile) (drop 8 lblFile)))"

text \<open>
  The words of the specification: a header field is four bytes, the most significant
  first; a target is one-hot at \<open>k\<close> when it has ten entries, \<open>1.0f\<close> at \<open>k\<close> and \<open>0.0f\<close>
  elsewhere.
\<close>

definition be32 :: "byte list \<Rightarrow> nat" where
  "be32 bs = unat (bs ! 0) * 2 ^ 24 + unat (bs ! 1) * 2 ^ 16 + unat (bs ! 2) * 2 ^ 8 + unat (bs ! 3)"

definition one_hot :: "'f float_ops \<Rightarrow> 'f list \<Rightarrow> nat \<Rightarrow> bool" where
  "one_hot F v k \<longleftrightarrow> length v = 10 \<and> k < 10 \<and> v ! k = fof_int F 1
     \<and> (\<forall>i < 10. i \<noteq> k \<longrightarrow> v ! i = fof_int F 0)"

text \<open>A pixel is the raw byte divided by \<open>255\<close>; a sample is decoded from the bytes of its
  record and its label byte, the target being one-hot at the label when the label is a
  digit and all zero otherwise.\<close>

definition normalize :: "'f float_ops \<Rightarrow> byte \<Rightarrow> 'f" where
  "normalize F b = fdiv F (fof_int F (uint b)) (fof_int F 255)"

definition decode_sample :: "'f float_ops \<Rightarrow> byte list \<Rightarrow> byte \<Rightarrow> 'f Image" where
  "decode_sample F px b =
     \<lparr>pixels = map (normalize F) px,
      target = map (\<lambda>i. if uint b = int i then fof_int F 1 else fof_int F 0) [0..<10],
      label = uint b\<rparr>"

definition in_unit_interval :: "'f float_ops \<Rightarrow> 'f \<Rightarrow> bool" where
  "in_unit_interval F p \<longleftrightarrow> fle F (fof_int F 0) p \<and> fle F p (fof_int F 1)"

text \<open>The pixel bytes of record \<open>k\<close> of an image file with \<open>sz\<close> bytes a record, and its label byte.\<close>

definition record_bytes :: "byte list \<Rightarrow> nat \<Rightarrow> nat \<Rightarrow> byte list" where
  "record_bytes imgFile sz k = take sz (drop (16 + k * sz) imgFile)"

definition label_byte :: "byte list \<Rightarrow> nat \<Rightarrow> byte" where
  "label_byte lblFile k = lblFile ! (8 + k)"

text \<open>The number of records and the bytes of a record that the header of an image file
  announces, and the samples of a pair of files, record by record in file order.\<close>

definition num_records :: "byte list \<Rightarrow> nat" where
  "num_records imgFile = be32 (take 4 (drop 4 imgFile))"

definition record_size :: "byte list \<Rightarrow> nat" where
  "record_size imgFile = be32 (take 4 (drop 8 imgFile)) * be32 (take 4 (drop 12 imgFile))"

definition decoded_samples :: "'f float_ops \<Rightarrow> byte list \<Rightarrow> byte list \<Rightarrow> 'f Image list" where
  "decoded_samples F imgFile lblFile =
     map (\<lambda>k. decode_sample F (record_bytes imgFile (record_size imgFile) k) (label_byte lblFile k))
       [0..<num_records imgFile]"

text \<open>
  A well-formed pair of files: the two magic numbers, equal counts, and exactly the
  bytes the headers announce.
\<close>

definition well_formed_pair :: "byte list \<Rightarrow> byte list \<Rightarrow> bool" where
  "well_formed_pair imgFile lblFile \<longleftrightarrow>
     16 \<le> length imgFile \<and> 8 \<le> length lblFile
     \<and> be32 (take 4 imgFile) = 2051 \<and> be32 (take 4 lblFile) = 2049
     \<and> num_records imgFile = be32 (take 4 (drop 4 lblFile))
     \<and> length imgFile = 16 + num_records imgFile * record_size imgFile
     \<and> length lblFile = 8 + num_records imgFile"

text \<open>
  What is assumed of float division where a claim bounds a pixel: dividing by \<open>255.0f\<close>
  gives \<open>0.0f\<close> at \<open>0\<close>, \<open>1.0f\<close> at \<open>255\<close>, and is monotone in between. IEEE division,
  correctly rounded, is so.
\<close>

definition div255_monotone :: "'f float_ops \<Rightarrow> bool" where
  "div255_monotone F \<longleftrightarrow>
     fdiv F (fof_int F 0) (fof_int F 255) = fof_int F 0
     \<and> fdiv F (fof_int F 255) (fof_int F 255) = fof_int F 1
     \<and> (\<forall>a b. 0 \<le> a \<and> a \<le> b \<and> b \<le> 255 \<longrightarrow>
           fle F (fdiv F (fof_int F a) (fof_int F 255)) (fdiv F (fof_int F b) (fof_int F 255)))"

section \<open>Augmentation: scaleImage\<close>

text \<open>
  The body of the inner loop of \<open>scaleImage\<close> for the destination pixel \<open>(x, y)\<close>.
  \<open>(x - cx_dst) / scale + cx_src\<close> converts \<open>x\<close> to \<open>float\<close>; \<open>sx >= srcW - 1\<close> converts
  \<open>srcW - 1\<close>; \<open>x0\<close> is \<open>static_cast<int>(std::floor(sx))\<close>, and \<open>sx - x0\<close> converts it back.
\<close>

definition scale_pixel :: "'f float_ops \<Rightarrow> 'f list \<Rightarrow> 'f \<Rightarrow> int \<Rightarrow> int \<Rightarrow> int \<Rightarrow> int \<Rightarrow> nat \<Rightarrow> nat \<Rightarrow> 'f list \<Rightarrow> 'f list" where
  "scale_pixel F src scale srcW srcH dstW dstH y x out =
     (let cx_src = fdiv F (fof_int F (srcW - 1)) (fof_int F 2);
          cy_src = fdiv F (fof_int F (srcH - 1)) (fof_int F 2);
          cx_dst = fdiv F (fof_int F (dstW - 1)) (fof_int F 2);
          cy_dst = fdiv F (fof_int F (dstH - 1)) (fof_int F 2);
          sx = fadd F (fdiv F (fsub F (fof_int F (int x)) cx_dst) scale) cx_src;
          sy = fadd F (fdiv F (fsub F (fof_int F (int y)) cy_dst) scale) cy_src
      in if flt F sx (fof_int F 0) \<or> fle F (fof_int F (srcW - 1)) sx
            \<or> flt F sy (fof_int F 0) \<or> fle F (fof_int F (srcH - 1)) sy
         then out[y * nat dstW + x := fof_int F 0]
         else let x0 = ffloor F sx; y0 = ffloor F sy;
                  x1 = x0 + 1; y1 = y0 + 1;
                  wx = fsub F sx (fof_int F x0);
                  wy = fsub F sy (fof_int F y0);
                  v00 = src ! nat (y0 * srcW + x0);
                  v10 = src ! nat (y0 * srcW + x1);
                  v01 = src ! nat (y1 * srcW + x0);
                  v11 = src ! nat (y1 * srcW + x1);
                  v0 = fadd F (fmul F v00 (fsub F (fof_int F 1) wx)) (fmul F v10 wx);
                  v1 = fadd F (fmul F v01 (fsub F (fof_int F 1) wx)) (fmul F v11 wx);
                  v = fadd F (fmul F v0 (fsub F (fof_int F 1) wy)) (fmul F v1 wy)
              in out[y * nat dstW + x := v])"

definition scaleImage :: "'f float_ops \<Rightarrow> 'f list \<Rightarrow> 'f \<Rightarrow> int \<Rightarrow> int \<Rightarrow> int \<Rightarrow> int \<Rightarrow> 'f list" where
  "scaleImage F src scale srcW srcH dstW dstH =
     (let out = replicate (nat (dstW * dstH)) (fof_int F 0)
      in fold (\<lambda>y. fold (scale_pixel F src scale srcW srcH dstW dstH y) [0..<nat dstW])
           [0..<nat dstH] out)"

text \<open>
  The words of the specification: the source coordinate of a destination pixel, the
  closed region \<open>[0, W-2] \<times> [0, H-2]\<close>, and the bilinear interpolation of the four
  neighbours with the weights \<open>wx = sx - floor(sx)\<close>, \<open>wy = sy - floor(sy)\<close>.
\<close>

definition src_coord :: "'f float_ops \<Rightarrow> 'f \<Rightarrow> int \<Rightarrow> int \<Rightarrow> nat \<Rightarrow> 'f" where
  "src_coord F scale srcW dstW x =
     fadd F (fdiv F (fsub F (fof_int F (int x)) (fdiv F (fof_int F (dstW - 1)) (fof_int F 2))) scale)
       (fdiv F (fof_int F (srcW - 1)) (fof_int F 2))"

definition outside_closed_region :: "'f float_ops \<Rightarrow> 'f \<Rightarrow> 'f \<Rightarrow> int \<Rightarrow> int \<Rightarrow> bool" where
  "outside_closed_region F sx sy W H \<longleftrightarrow>
     flt F sx (fof_int F 0) \<or> flt F (fof_int F (W - 2)) sx
     \<or> flt F sy (fof_int F 0) \<or> flt F (fof_int F (H - 2)) sy"

definition outside_half_open_region :: "'f float_ops \<Rightarrow> 'f \<Rightarrow> 'f \<Rightarrow> int \<Rightarrow> int \<Rightarrow> bool" where
  "outside_half_open_region F sx sy W H \<longleftrightarrow>
     flt F sx (fof_int F 0) \<or> fle F (fof_int F (W - 1)) sx
     \<or> flt F sy (fof_int F 0) \<or> fle F (fof_int F (H - 1)) sy"

definition lerp :: "'f float_ops \<Rightarrow> 'f \<Rightarrow> 'f \<Rightarrow> 'f \<Rightarrow> 'f" where
  "lerp F a b w = fadd F (fmul F a (fsub F (fof_int F 1) w)) (fmul F b w)"

definition bilinear :: "'f float_ops \<Rightarrow> 'f list \<Rightarrow> int \<Rightarrow> 'f \<Rightarrow> 'f \<Rightarrow> 'f" where
  "bilinear F src W sx sy =
     (let x0 = ffloor F sx; y0 = ffloor F sy;
          wx = fsub F sx (fof_int F x0); wy = fsub F sy (fof_int F y0)
      in lerp F (lerp F (src ! nat (y0 * W + x0)) (src ! nat (y0 * W + (x0 + 1))) wx)
                (lerp F (src ! nat ((y0 + 1) * W + x0)) (src ! nat ((y0 + 1) * W + (x0 + 1))) wx) wy)"

text \<open>What the code writes at the destination pixel \<open>(x, y)\<close>: zero outside the half-open
  region, the interpolation inside.\<close>

definition scale_value :: "'f float_ops \<Rightarrow> 'f list \<Rightarrow> 'f \<Rightarrow> int \<Rightarrow> int \<Rightarrow> int \<Rightarrow> int \<Rightarrow> nat \<Rightarrow> nat \<Rightarrow> 'f" where
  "scale_value F src scale srcW srcH dstW dstH y x =
     (if outside_half_open_region F (src_coord F scale srcW dstW x) (src_coord F scale srcH dstH y) srcW srcH
      then fof_int F 0
      else bilinear F src srcW (src_coord F scale srcW dstW x) (src_coord F scale srcH dstH y))"

section \<open>Concrete interpretations\<close>

text \<open>
  The arithmetic of the reals. Single-precision arithmetic computes the same wherever
  the operands and the exact result are representable, as they are for the small
  integers and halves used below.
\<close>

definition exact_ops :: "real float_ops" where
  "exact_ops = \<lparr>fadd = (+), fsub = (-), fmul = (*), fdiv = (/), fneg = uminus,
     flt = (<), fle = (\<le>), fof_int = of_int, ffloor = floor, fexp = exp, ftanh = tanh,
     f0_01 = 1 / 100\<rparr>"

text \<open>A float as its 32 bits, written to the file lowest byte first.\<close>

definition bits_repr :: "32 word float_repr" where
  "bits_repr = \<lparr>float_bytes = (\<lambda>w. [ucast w, ucast (drop_bit 8 w), ucast (drop_bit 16 w),
       ucast (drop_bit 24 w)]), bytes_float = word_of_bytes\<rparr>"

text \<open>
  A layer of two inputs and one output, the same layer after a forward pass on
  \<open>(1, 1)\<close>, and after the training step with target \<open>5\<close> and learning rate \<open>1\<close>.
\<close>

definition layer_2x1 :: "real Layer" where
  "layer_2x1 = \<lparr>numNodesIn = 2, numNodesOut = 1, actType = ReLU, weights = [1, 2],
     biases = [3], lastInputs = [], lastOutputs = []\<rparr>"

definition layer_2x1_fwd :: "real Layer" where
  "layer_2x1_fwd = \<lparr>numNodesIn = 2, numNodesOut = 1, actType = ReLU, weights = [1, 2],
     biases = [3], lastInputs = [1, 1], lastOutputs = [6]\<rparr>"

definition layer_2x1_trained :: "real Layer" where
  "layer_2x1_trained = \<lparr>numNodesIn = 2, numNodesOut = 1, actType = ReLU, weights = [0, 1],
     biases = [2], lastInputs = [1, 1], lastOutputs = [6]\<rparr>"

definition net_2x1 :: "real NeuralNetwork" where
  "net_2x1 = \<lparr>layers = [layer_2x1]\<rparr>"

text \<open>
  Two's complement arithmetic on the 32 bits, an interpretation of the operations that
  is not IEEE arithmetic: it instantiates what holds for every interpretation.
\<close>

definition word_ops :: "32 word float_ops" where
  "word_ops = \<lparr>fadd = (+), fsub = (-), fmul = (*), fdiv = (div), fneg = uminus,
     flt = (<), fle = (\<le>), fof_int = word_of_int, ffloor = sint, fexp = (\<lambda>w. w), ftanh = (\<lambda>w. w),
     f0_01 = 0\<rparr>"

text \<open>
  The network of \<open>src/draw.cpp\<close>, \<open>NeuralNetwork net({1, 1, 1})\<close>: a \<open>Tanh\<close> layer and a
  \<open>Sigmoid\<close> layer of one input and one output each, with some weights and biases.
\<close>

definition net_1_1_1 :: "32 word NeuralNetwork" where
  "net_1_1_1 = \<lparr>layers =
     [\<lparr>numNodesIn = 1, numNodesOut = 1, actType = Tanh, weights = [0x3F000000],
        biases = [0xBF800000], lastInputs = [], lastOutputs = []\<rparr>,
      \<lparr>numNodesIn = 1, numNodesOut = 1, actType = Sigmoid, weights = [0x3F800000],
        biases = [0], lastInputs = [], lastOutputs = []\<rparr>]\<rparr>"

text \<open>The same network with inputs and outputs stored in its layers, as after a forward pass.\<close>

definition net_1_1_1_used :: "32 word NeuralNetwork" where
  "net_1_1_1_used = \<lparr>layers =
     [\<lparr>numNodesIn = 1, numNodesOut = 1, actType = Tanh, weights = [0x3F000000],
        biases = [0xBF800000], lastInputs = [0x40000000], lastOutputs = [0]\<rparr>,
      \<lparr>numNodesIn = 1, numNodesOut = 1, actType = Sigmoid, weights = [0x3F800000],
        biases = [0], lastInputs = [0], lastOutputs = [0x3F000000]\<rparr>]\<rparr>"

text \<open>
  A pair of files with two images of one row and two columns, labelled \<open>3\<close> and \<open>9\<close>;
  the same images with the second label byte \<open>200\<close>; and a label file with the magic
  number of an image file.
\<close>

definition img_file_2 :: "byte list" where
  "img_file_2 = [0, 0, 8, 3,  0, 0, 0, 2,  0, 0, 0, 1,  0, 0, 0, 2,  0, 255,  255, 0]"

definition lbl_file_2 :: "byte list" where
  "lbl_file_2 = [0, 0, 8, 1,  0, 0, 0, 2,  3, 9]"

definition lbl_file_2_bad_label :: "byte list" where
  "lbl_file_2_bad_label = [0, 0, 8, 1,  0, 0, 0, 2,  3, 200]"

definition lbl_file_2_bad_magic :: "byte list" where
  "lbl_file_2_bad_magic = [0, 0, 8, 3,  0, 0, 0, 2,  3, 9]"

text \<open>
  Two image files with one record each, of zero bytes: one of \<open>65536\<close> rows and \<open>65536\<close>
  columns, one of \<open>2^31\<close> rows and one column; and a label file with the one label \<open>3\<close>.
\<close>

definition zero_bytes :: "nat \<Rightarrow> byte list" where
  "zero_bytes n = replicate n 0"

definition img_file_65536 :: "byte list" where
  "img_file_65536 = [0, 0, 8, 3,  0, 0, 0, 1,  0, 1, 0, 0,  0, 1, 0, 0] @ zero_bytes (2 ^ 32)"

definition img_file_2_31 :: "byte list" where
  "img_file_2_31 = [0, 0, 8, 3,  0, 0, 0, 1,  128, 0, 0, 0,  0, 0, 0, 1] @ zero_bytes (2 ^ 31)"

definition lbl_file_1 :: "byte list" where
  "lbl_file_1 = [0, 0, 8, 1,  0, 0, 0, 1,  3]"

section \<open>Forward pass of a layer\<close>

lemma fold_calc_step:
  "n \<le> length inputs \<Longrightarrow>
   fold (calc_step F L inputs out) [0..<n] b =
   affine_sum F b (take n inputs) (map (\<lambda>i. weight_at L i out) [0..<n])"
proof (induction n)
  case 0
  show ?case by (simp add: affine_sum_def)
next
  case (Suc n)
  then have n: "n < length inputs" by simp
  have "take (Suc n) inputs = take n inputs @ [inputs ! n]"
    using n by (simp add: take_Suc_conv_app_nth)
  then show ?case
    using Suc by (simp add: affine_sum_def calc_step_def weight_at_def)
qed

lemma length_fold_calc_out:
  "length (fold (calc_out F L inputs) [0..<k] outs) = length outs"
  by (induction k) (simp_all add: calc_out_def Let_def)

lemma nth_fold_calc_out:
  "k \<le> length outs \<Longrightarrow> out < k \<Longrightarrow>
   fold (calc_out F L inputs) [0..<k] outs ! out =
   activation F (actType L)
     (fold (calc_step F L inputs out) [0..<nat (numNodesIn L)] (biases L ! out))"
proof (induction k)
  case 0
  then show ?case by simp
next
  case (Suc k)
  let ?prev = "fold (calc_out F L inputs) [0..<k] outs"
  have step: "fold (calc_out F L inputs) [0..<Suc k] outs = calc_out F L inputs k ?prev"
    by simp
  have len: "length ?prev = length outs"
    by (rule length_fold_calc_out)
  show ?case
  proof (cases "out = k")
    case True
    have "k < length ?prev" using Suc.prems len by simp
    then have "calc_out F L inputs k ?prev ! k = activation F (actType L)
        (fold (calc_step F L inputs k) [0..<nat (numNodesIn L)] (biases L ! k))"
      unfolding calc_out_def Let_def by (rule nth_list_update_eq)
    then show ?thesis using True step by simp
  next
    case False
    then have lt: "out < k" using Suc.prems by simp
    have "calc_out F L inputs k ?prev ! out = ?prev ! out"
      unfolding calc_out_def Let_def using False by (simp only: nth_list_update_neq not_sym)
    then show ?thesis
      using Suc.IH [OF _ lt] Suc.prems step by simp
  qed
qed

text \<open>
  C5. For a layer whose sizes agree and an input of exactly \<open>numNodesIn\<close> floats,
  \<open>calculateOutput\<close> returns \<open>numNodesOut\<close> floats, the one at \<open>o\<close> being the activation of
  the bias at \<open>o\<close> plus the products \<open>inputs[i] * weight[i][o]\<close> added in the order of \<open>i\<close>,
  with the weight read at \<open>i * numNodesOut + o\<close>; afterwards \<open>lastInputs\<close> is the input and
  \<open>lastOutputs\<close> the returned vector, and nothing else of the layer has changed.
\<close>

theorem calculateOutput_correct:
  assumes "wf_Layer L" and "int (length inputs) = numNodesIn L"
    and "calculateOutput F L inputs = (L', outputs)"
  shows "int (length outputs) = numNodesOut L
    \<and> (\<forall>j < nat (numNodesOut L).
          outputs ! j = activation F (actType L) (affine_sum F (biases L ! j) inputs (column L j))
          \<and> column L j = map (\<lambda>i. weights L ! (i * nat (numNodesOut L) + j)) [0..<length inputs])
    \<and> lastInputs L' = inputs \<and> lastOutputs L' = outputs
    \<and> L' = L\<lparr>lastInputs := inputs, lastOutputs := outputs\<rparr>"
proof -
  let ?L1 = "L\<lparr>lastInputs := inputs\<rparr>"
  let ?n = "nat (numNodesOut L)"
  have n_in: "nat (numNodesIn L) = length inputs"
    using assms(2) by simp
  have outs: "outputs = fold (calc_out F ?L1 inputs) [0..<?n] (replicate ?n (fof_int F 0))"
    and L': "L' = ?L1\<lparr>lastOutputs := outputs\<rparr>"
    using assms(3) by (auto simp add: calculateOutput_def Let_def)
  have len: "int (length outputs) = numNodesOut L"
    using assms(1) by (simp add: outs length_fold_calc_out wf_Layer_def)
  have nth: "outputs ! j = activation F (actType L) (affine_sum F (biases L ! j) inputs (column L j))"
    if "j < ?n" for j
  proof -
    have "outputs ! j = activation F (actType ?L1)
        (fold (calc_step F ?L1 inputs j) [0..<nat (numNodesIn ?L1)] (biases ?L1 ! j))"
      unfolding outs using that by (intro nth_fold_calc_out) simp_all
    also have "fold (calc_step F ?L1 inputs j) [0..<nat (numNodesIn ?L1)] (biases ?L1 ! j)
        = affine_sum F (biases L ! j) inputs (column L j)"
      using fold_calc_step [of "length inputs" inputs F ?L1 j "biases L ! j"]
      by (simp add: n_in column_def weight_at_def)
    finally show ?thesis by simp
  qed
  have col: "column L j = map (\<lambda>i. weights L ! (i * ?n + j)) [0..<length inputs]" for j
    by (simp add: column_def weight_at_def n_in)
  show ?thesis
    using len nth col L' by simp
qed

section \<open>Backward pass of a layer\<close>

lemma flat_index_inj:
  fixes n :: nat
  assumes "i * n + j = i' * n + j'" and "j < n" and "j' < n"
  shows "i = i' \<and> j = j'"
proof -
  have "(i * n + j) div n = i" "(i * n + j) mod n = j"
    using assms(2) by simp_all
  moreover have "(i' * n + j') div n = i'" "(i' * n + j') mod n = j'"
    using assms(3) by simp_all
  ultimately show ?thesis using assms(1) by metis
qed

lemma flat_index_less:
  fixes n :: nat
  assumes "i < m" and "j < n"
  shows "i * n + j < m * n"
proof -
  have "i * n + j < i * n + n" using assms(2) by simp
  also have "\<dots> = Suc i * n" by simp
  also have "\<dots> \<le> m * n" using assms(1) by (intro mult_le_mono1) simp
  finally show ?thesis .
qed

lemma bp_step_frame:
  "numNodesIn (fst (bp_step F lr d j i st)) = numNodesIn (fst st)
   \<and> numNodesOut (fst (bp_step F lr d j i st)) = numNodesOut (fst st)
   \<and> actType (fst (bp_step F lr d j i st)) = actType (fst st)
   \<and> biases (fst (bp_step F lr d j i st)) = biases (fst st)
   \<and> lastInputs (fst (bp_step F lr d j i st)) = lastInputs (fst st)
   \<and> lastOutputs (fst (bp_step F lr d j i st)) = lastOutputs (fst st)
   \<and> length (weights (fst (bp_step F lr d j i st))) = length (weights (fst st))
   \<and> length (snd (bp_step F lr d j i st)) = length (snd st)"
  by (simp add: bp_step_def Let_def)

lemma fold_bp_step_frame:
  "numNodesIn (fst (fold (bp_step F lr d j) xs st)) = numNodesIn (fst st)
   \<and> numNodesOut (fst (fold (bp_step F lr d j) xs st)) = numNodesOut (fst st)
   \<and> actType (fst (fold (bp_step F lr d j) xs st)) = actType (fst st)
   \<and> biases (fst (fold (bp_step F lr d j) xs st)) = biases (fst st)
   \<and> lastInputs (fst (fold (bp_step F lr d j) xs st)) = lastInputs (fst st)
   \<and> lastOutputs (fst (fold (bp_step F lr d j) xs st)) = lastOutputs (fst st)
   \<and> length (weights (fst (fold (bp_step F lr d j) xs st))) = length (weights (fst st))
   \<and> length (snd (fold (bp_step F lr d j) xs st)) = length (snd st)"
proof (induction xs arbitrary: st)
  case Nil
  show ?case by simp
next
  case (Cons x xs)
  show ?case
    using Cons [of "bp_step F lr d j x st"] bp_step_frame [of F lr d j x st] by simp
qed

text \<open>The inner loop after \<open>k\<close> iterations.\<close>

lemma fold_bp_step_weights:
  assumes "j < nat (numNodesOut (fst st))"
    and "k * nat (numNodesOut (fst st)) \<le> length (weights (fst st))"
  shows "weights (fst (fold (bp_step F lr d j) [0..<k] st)) ! idx =
    (if \<exists>i<k. idx = i * nat (numNodesOut (fst st)) + j
     then fsub F (weights (fst st) ! idx)
            (fmul F (fmul F lr d) (lastInputs (fst st) ! ((idx - j) div nat (numNodesOut (fst st)))))
     else weights (fst st) ! idx)"
  using assms(2)
proof (induction k arbitrary: idx)
  case 0
  show ?case by simp
next
  case (Suc k)
  let ?n = "nat (numNodesOut (fst st))"
  let ?st = "fold (bp_step F lr d j) [0..<k] st"
  note fr = fold_bp_step_frame [of F lr d j "[0..<k]" st]
  have le: "k * ?n \<le> length (weights (fst st))"
    using Suc.prems by simp
  note IH = Suc.IH [OF le]
  have step: "fold (bp_step F lr d j) [0..<Suc k] st = bp_step F lr d j k ?st"
    by simp
  have in_range: "k * ?n + j < length (weights (fst ?st))"
    using flat_index_less [of k "Suc k" j ?n] assms(1) Suc.prems fr by simp
  have pos: "0 < numNodesOut (fst st)"
    using assms(1) by simp
  have div: "(k * ?n + j - j) div ?n = k"
    using assms(1) by simp
  show ?case
  proof (cases "idx = k * ?n + j")
    case True
    have "weights (fst (bp_step F lr d j k ?st)) ! idx =
        fsub F (weights (fst ?st) ! idx) (fmul F (fmul F lr d) (lastInputs (fst ?st) ! k))"
      using in_range True fr by (simp add: bp_step_def Let_def)
    also have "weights (fst ?st) ! idx = weights (fst st) ! idx"
      using IH [of idx] True pos by simp
    finally show ?thesis
      using True fr div step pos by auto
  next
    case False
    have "weights (fst (bp_step F lr d j k ?st)) ! idx = weights (fst ?st) ! idx"
      using False fr by (simp add: bp_step_def Let_def)
    moreover have "(\<exists>i<Suc k. idx = i * ?n + j) \<longleftrightarrow> (\<exists>i<k. idx = i * ?n + j)"
      using False less_Suc_eq by auto
    ultimately show ?thesis
      using IH [of idx] step by simp
  qed
qed

lemma fold_bp_step_grads:
  assumes "k \<le> length (snd st)"
    and "j < nat (numNodesOut (fst st))"
    and "k * nat (numNodesOut (fst st)) \<le> length (weights (fst st))"
  shows "snd (fold (bp_step F lr d j) [0..<k] st) ! i =
    (if i < k then fadd F (snd st ! i) (fmul F d (weights (fst st) ! (i * nat (numNodesOut (fst st)) + j)))
     else snd st ! i)"
  using assms(1,3)
proof (induction k arbitrary: i)
  case 0
  show ?case by simp
next
  case (Suc k)
  let ?n = "nat (numNodesOut (fst st))"
  let ?st = "fold (bp_step F lr d j) [0..<k] st"
  note fr = fold_bp_step_frame [of F lr d j "[0..<k]" st]
  have le: "k \<le> length (snd st)" "k * ?n \<le> length (weights (fst st))"
    using Suc.prems by simp_all
  note IH = Suc.IH [OF le]
  have step: "fold (bp_step F lr d j) [0..<Suc k] st = bp_step F lr d j k ?st"
    by simp
  have pos: "0 < numNodesOut (fst st)"
    using assms(2) by simp
  have w: "weights (fst ?st) ! (k * ?n + j) = weights (fst st) ! (k * ?n + j)"
    using fold_bp_step_weights [OF assms(2) le(2), of F lr d "k * ?n + j"] pos by simp
  have k: "k < length (snd ?st)"
    using Suc.prems fr by simp
  show ?case
  proof (cases "i = k")
    case True
    have "snd (bp_step F lr d j k ?st) ! i =
        fadd F (snd ?st ! k) (fmul F d (weights (fst ?st) ! (k * ?n + j)))"
      using k True fr by (simp add: bp_step_def Let_def)
    then show ?thesis
      using IH [of k] w True step by simp
  next
    case False
    have "snd (bp_step F lr d j k ?st) ! i = snd ?st ! i"
      using False by (simp add: bp_step_def Let_def)
    then show ?thesis
      using IH [of i] False step by (simp add: less_Suc_eq)
  qed
qed


lemma bp_out_unfold:
  "bp_out F og lr j st =
     fold (bp_step F lr (bp_delta F (fst st) og j) j) [0..<nat (numNodesIn (fst st))]
       ((fst st)\<lparr>biases := (biases (fst st))[j := fsub F (biases (fst st) ! j)
            (fmul F lr (bp_delta F (fst st) og j))]\<rparr>, snd st)"
  by (simp add: bp_out_def bp_delta_def Let_def)

lemma bp_out_frame:
  "numNodesIn (fst (bp_out F og lr j st)) = numNodesIn (fst st)
   \<and> numNodesOut (fst (bp_out F og lr j st)) = numNodesOut (fst st)
   \<and> actType (fst (bp_out F og lr j st)) = actType (fst st)
   \<and> lastInputs (fst (bp_out F og lr j st)) = lastInputs (fst st)
   \<and> lastOutputs (fst (bp_out F og lr j st)) = lastOutputs (fst st)
   \<and> length (weights (fst (bp_out F og lr j st))) = length (weights (fst st))
   \<and> length (biases (fst (bp_out F og lr j st))) = length (biases (fst st))
   \<and> length (snd (bp_out F og lr j st)) = length (snd st)"
  unfolding bp_out_unfold
  using fold_bp_step_frame [of F lr "bp_delta F (fst st) og j" j "[0..<nat (numNodesIn (fst st))]"
      "((fst st)\<lparr>biases := (biases (fst st))[j := fsub F (biases (fst st) ! j)
            (fmul F lr (bp_delta F (fst st) og j))]\<rparr>, snd st)"]
  by simp

lemma fold_bp_out_frame:
  "numNodesIn (fst (fold (bp_out F og lr) xs st)) = numNodesIn (fst st)
   \<and> numNodesOut (fst (fold (bp_out F og lr) xs st)) = numNodesOut (fst st)
   \<and> actType (fst (fold (bp_out F og lr) xs st)) = actType (fst st)
   \<and> lastInputs (fst (fold (bp_out F og lr) xs st)) = lastInputs (fst st)
   \<and> lastOutputs (fst (fold (bp_out F og lr) xs st)) = lastOutputs (fst st)
   \<and> length (weights (fst (fold (bp_out F og lr) xs st))) = length (weights (fst st))
   \<and> length (biases (fst (fold (bp_out F og lr) xs st))) = length (biases (fst st))
   \<and> length (snd (fold (bp_out F og lr) xs st)) = length (snd st)"
proof (induction xs arbitrary: st)
  case Nil
  show ?case by simp
next
  case (Cons x xs)
  show ?case
    using Cons [of "bp_out F og lr x st"] bp_out_frame [of F og lr x st] by simp
qed

lemma bp_delta_frame:
  "actType L' = actType L \<Longrightarrow> lastOutputs L' = lastOutputs L \<Longrightarrow>
   bp_delta F L' og j = bp_delta F L og j"
  by (simp add: bp_delta_def)

lemma fold_bp_out_Suc:
  "fold (bp_out F og lr) [0..<Suc m] st =
     fold (bp_step F lr (bp_delta F (fst st) og m) m) [0..<nat (numNodesIn (fst st))]
       ((fst (fold (bp_out F og lr) [0..<m] st))
          \<lparr>biases := (biases (fst (fold (bp_out F og lr) [0..<m] st)))
             [m := fsub F (biases (fst (fold (bp_out F og lr) [0..<m] st)) ! m)
                     (fmul F lr (bp_delta F (fst st) og m))]\<rparr>,
        snd (fold (bp_out F og lr) [0..<m] st))"
proof -
  let ?st = "fold (bp_out F og lr) [0..<m] st"
  note fr = fold_bp_out_frame [of F og lr "[0..<m]" st]
  have d: "bp_delta F (fst ?st) og m = bp_delta F (fst st) og m"
    using fr by (intro bp_delta_frame) simp_all
  have n: "numNodesIn (fst ?st) = numNodesIn (fst st)"
    using fr by simp
  have "fold (bp_out F og lr) [0..<Suc m] st = bp_out F og lr m ?st"
    by simp
  also have "\<dots> = fold (bp_step F lr (bp_delta F (fst ?st) og m) m) [0..<nat (numNodesIn (fst ?st))]
       ((fst ?st)\<lparr>biases := (biases (fst ?st))[m := fsub F (biases (fst ?st) ! m)
            (fmul F lr (bp_delta F (fst ?st) og m))]\<rparr>, snd ?st)"
    by (rule bp_out_unfold)
  finally show ?thesis
    unfolding d n .
qed

text \<open>The outer loop after \<open>m\<close> iterations: biases.\<close>

lemma fold_bp_out_biases:
  assumes "m \<le> length (biases (fst st))"
  shows "biases (fst (fold (bp_out F og lr) [0..<m] st)) ! j =
    (if j < m then fsub F (biases (fst st) ! j) (fmul F lr (bp_delta F (fst st) og j))
     else biases (fst st) ! j)"
  using assms
proof (induction m arbitrary: j)
  case 0
  show ?case by simp
next
  case (Suc m)
  let ?st = "fold (bp_out F og lr) [0..<m] st"
  let ?d = "bp_delta F (fst st) og m"
  let ?st1 = "((fst ?st)\<lparr>biases := (biases (fst ?st))[m := fsub F (biases (fst ?st) ! m)
            (fmul F lr ?d)]\<rparr>, snd ?st)"
  note fr = fold_bp_out_frame [of F og lr "[0..<m]" st]
  have le: "m \<le> length (biases (fst st))" using Suc.prems by simp
  note IH = Suc.IH [OF le]
  have m: "m < length (biases (fst ?st))"
    using Suc.prems fr by simp
  have "biases (fst (fold (bp_out F og lr) [0..<Suc m] st)) = biases (fst ?st1)"
    unfolding fold_bp_out_Suc
    using fold_bp_step_frame [of F lr ?d m "[0..<nat (numNodesIn (fst st))]" ?st1]
    by (simp only:)
  then have "biases (fst (fold (bp_out F og lr) [0..<Suc m] st)) =
      (biases (fst ?st))[m := fsub F (biases (fst ?st) ! m) (fmul F lr ?d)]"
    by simp
  then show ?case
    using IH [of j] IH [of m] m by (cases "j = m") (simp_all add: less_Suc_eq)
qed

text \<open>The outer loop after \<open>m\<close> iterations: weights.\<close>

lemma fold_bp_out_weights:
  assumes "wf_Layer (fst st)" and "m \<le> nat (numNodesOut (fst st))"
    and "i < nat (numNodesIn (fst st))" and "j < nat (numNodesOut (fst st))"
  shows "weights (fst (fold (bp_out F og lr) [0..<m] st)) ! (i * nat (numNodesOut (fst st)) + j) =
    (if j < m then fsub F (weights (fst st) ! (i * nat (numNodesOut (fst st)) + j))
        (fmul F (fmul F lr (bp_delta F (fst st) og j)) (lastInputs (fst st) ! i))
     else weights (fst st) ! (i * nat (numNodesOut (fst st)) + j))"
  using assms(2,4)
proof (induction m arbitrary: j)
  case 0
  show ?case by simp
next
  case (Suc m)
  let ?n = "nat (numNodesOut (fst st))"
  let ?st = "fold (bp_out F og lr) [0..<m] st"
  let ?d = "bp_delta F (fst st) og m"
  let ?st1 = "((fst ?st)\<lparr>biases := (biases (fst ?st))[m := fsub F (biases (fst ?st) ! m)
            (fmul F lr ?d)]\<rparr>, snd ?st)"
  note fr = fold_bp_out_frame [of F og lr "[0..<m]" st]
  have le: "m \<le> ?n" and m: "m < ?n" using Suc.prems by simp_all
  note IH = Suc.IH [OF le Suc.prems(2)]
  have pos: "0 < numNodesOut (fst st)" using m by simp
  have "int (nat (numNodesIn (fst st)) * ?n) = int (length (weights (fst st)))"
    using assms(1) by (simp add: wf_Layer_def)
  then have len: "nat (numNodesIn (fst st)) * ?n = length (weights (fst st))"
    by (simp only: int_int_eq)
  define st1 where "st1 = ?st1"
  have f1: "nat (numNodesOut (fst st1)) = ?n" "weights (fst st1) = weights (fst ?st)"
    "lastInputs (fst st1) = lastInputs (fst st)"
    using fr by (simp_all add: st1_def)
  have pre: "m < nat (numNodesOut (fst st1))"
    "nat (numNodesIn (fst st)) * nat (numNodesOut (fst st1)) \<le> length (weights (fst st1))"
    using m len fr by (simp_all add: f1)
  have upd: "weights (fst (fold (bp_step F lr ?d m) [0..<nat (numNodesIn (fst st))] st1)) ! (i * ?n + j) =
    (if \<exists>i'<nat (numNodesIn (fst st)). i * ?n + j = i' * ?n + m
     then fsub F (weights (fst ?st) ! (i * ?n + j))
            (fmul F (fmul F lr ?d) (lastInputs (fst st) ! ((i * ?n + j - m) div ?n)))
     else weights (fst ?st) ! (i * ?n + j))"
    using fold_bp_step_weights [OF pre, of F lr ?d "i * ?n + j"] unfolding f1 .
  have ex: "(\<exists>i'<nat (numNodesIn (fst st)). i * ?n + j = i' * ?n + m) \<longleftrightarrow> j = m"
    using flat_index_inj [of i ?n j _ m] m Suc.prems(2) assms(3) by auto
  have dv: "(i * ?n + m - m) div ?n = i"
    using m by simp
  have "weights (fst (fold (bp_out F og lr) [0..<Suc m] st)) ! (i * ?n + j) =
    (if j = m
     then fsub F (weights (fst ?st) ! (i * ?n + j))
            (fmul F (fmul F lr ?d) (lastInputs (fst st) ! ((i * ?n + j - m) div ?n)))
     else weights (fst ?st) ! (i * ?n + j))"
    unfolding fold_bp_out_Suc using upd unfolding ex st1_def .
  then show ?case
    using IH m dv by (cases "j = m") (simp_all add: less_Suc_eq)
qed


text \<open>The outer loop after \<open>m\<close> iterations: input gradients, from the weights before any update.\<close>

lemma fold_bp_out_grads:
  assumes "wf_Layer (fst st)" and "m \<le> nat (numNodesOut (fst st))"
    and "i < nat (numNodesIn (fst st))" and "length (snd st) = nat (numNodesIn (fst st))"
  shows "snd (fold (bp_out F og lr) [0..<m] st) ! i =
    foldl (\<lambda>acc j. fadd F acc (fmul F (bp_delta F (fst st) og j)
        (weights (fst st) ! (i * nat (numNodesOut (fst st)) + j)))) (snd st ! i) [0..<m]"
  using assms(2)
proof (induction m)
  case 0
  show ?case by simp
next
  case (Suc m)
  let ?n = "nat (numNodesOut (fst st))"
  let ?st = "fold (bp_out F og lr) [0..<m] st"
  let ?d = "bp_delta F (fst st) og m"
  let ?st1 = "((fst ?st)\<lparr>biases := (biases (fst ?st))[m := fsub F (biases (fst ?st) ! m)
            (fmul F lr ?d)]\<rparr>, snd ?st)"
  note fr = fold_bp_out_frame [of F og lr "[0..<m]" st]
  have le: "m \<le> ?n" and m: "m < ?n" using Suc.prems by simp_all
  note IH = Suc.IH [OF le]
  have "int (nat (numNodesIn (fst st)) * ?n) = int (length (weights (fst st)))"
    using assms(1) by (simp add: wf_Layer_def)
  then have len: "nat (numNodesIn (fst st)) * ?n = length (weights (fst st))"
    by (simp only: int_int_eq)
  define st1 where "st1 = ?st1"
  have f1: "nat (numNodesOut (fst st1)) = ?n" "weights (fst st1) = weights (fst ?st)"
    "snd st1 = snd ?st"
    using fr by (simp_all add: st1_def)
  have pre: "nat (numNodesIn (fst st)) \<le> length (snd st1)" "m < nat (numNodesOut (fst st1))"
    "nat (numNodesIn (fst st)) * nat (numNodesOut (fst st1)) \<le> length (weights (fst st1))"
    using m len fr assms(4) by (simp_all add: f1)
  have old: "weights (fst ?st) ! (i * ?n + m) = weights (fst st) ! (i * ?n + m)"
    using fold_bp_out_weights [OF assms(1) le assms(3) m, of F og lr] by simp
  have "snd (fold (bp_step F lr ?d m) [0..<nat (numNodesIn (fst st))] st1) ! i =
      fadd F (snd ?st ! i) (fmul F ?d (weights (fst ?st) ! (i * ?n + m)))"
    using fold_bp_step_grads [OF pre, of F lr ?d i] assms(3) unfolding f1 by simp
  then have "snd (fold (bp_out F og lr) [0..<Suc m] st) ! i =
      fadd F (snd ?st ! i) (fmul F ?d (weights (fst st) ! (i * ?n + m)))"
    unfolding fold_bp_out_Suc st1_def old .
  then show ?case
    using IH by simp
qed

text \<open>
  C4. For a layer whose sizes agree, with \<open>lastInputs\<close> and \<open>lastOutputs\<close> as a forward
  call leaves them, \<open>backPropagate\<close> computes for each output unit \<open>j\<close> the value
  \<open>delta = outputGradients[j] * derivative(lastOutputs[j])\<close>, subtracts
  \<open>learningRate * delta\<close> from \<open>biases[j]\<close>, sets each weight to its old value minus
  \<open>learningRate * delta * lastInputs[i]\<close>, and returns \<open>numNodesIn\<close> input gradients, the
  one at \<open>i\<close> being the sum over \<open>j\<close>, in order, of \<open>delta * weight[i][j]\<close> with the
  weight as it was before the call; nothing else of the layer changes.
\<close>

theorem backPropagate_correct:
  assumes "wf_Layer L"
    and "int (length (lastInputs L)) = numNodesIn L"
    and "int (length (lastOutputs L)) = numNodesOut L"
    and "int (length outputGradients) = numNodesOut L"
    and "backPropagate F L outputGradients learningRate = (L', inputGradients)"
  shows "int (length inputGradients) = numNodesIn L
    \<and> (\<forall>i < nat (numNodesIn L). inputGradients ! i = input_gradient F L outputGradients i)
    \<and> (\<forall>j < nat (numNodesOut L).
          bp_delta F L outputGradients j =
            fmul F (outputGradients ! j) (activationDerivative F (actType L) (lastOutputs L ! j))
          \<and> biases L' ! j = fsub F (biases L ! j) (fmul F learningRate (bp_delta F L outputGradients j))
          \<and> (\<forall>i < nat (numNodesIn L).
                weight_at L' i j = fsub F (weight_at L i j)
                  (fmul F (fmul F learningRate (bp_delta F L outputGradients j)) (lastInputs L ! i))))
    \<and> length (weights L') = length (weights L) \<and> length (biases L') = length (biases L)
    \<and> numNodesIn L' = numNodesIn L \<and> numNodesOut L' = numNodesOut L \<and> actType L' = actType L
    \<and> lastInputs L' = lastInputs L \<and> lastOutputs L' = lastOutputs L"
proof -
  let ?nI = "nat (numNodesIn L)" and ?nO = "nat (numNodesOut L)"
  let ?st = "(L, replicate ?nI (fof_int F 0))"
  have res: "fold (bp_out F outputGradients learningRate) [0..<?nO] ?st = (L', inputGradients)"
    using assms(5) by (simp add: backPropagate_def Let_def)
  note fr = fold_bp_out_frame [of F outputGradients learningRate "[0..<?nO]" ?st, unfolded res]
  have wf: "wf_Layer (fst ?st)" using assms(1) by simp
  have nb: "?nO \<le> length (biases (fst ?st))"
    using assms(1) by (auto simp add: wf_Layer_def)
  have len: "int (length inputGradients) = numNodesIn L"
    using fr assms(1) by (auto simp add: wf_Layer_def)
  have grads: "inputGradients ! i = input_gradient F L outputGradients i" if "i < ?nI" for i
    using fold_bp_out_grads [of ?st ?nO i F outputGradients learningRate] wf that
    unfolding res by (simp add: input_gradient_def weight_at_def)
  have bias: "biases L' ! j = fsub F (biases L ! j) (fmul F learningRate (bp_delta F L outputGradients j))"
    if "j < ?nO" for j
    using fold_bp_out_biases [OF nb, of F outputGradients learningRate j] that
    unfolding res by simp
  have wts: "weight_at L' i j = fsub F (weight_at L i j)
      (fmul F (fmul F learningRate (bp_delta F L outputGradients j)) (lastInputs L ! i))"
    if "i < ?nI" "j < ?nO" for i j
    using fold_bp_out_weights [of ?st ?nO i j F outputGradients learningRate] wf that fr
    unfolding res by (simp add: weight_at_def)
  show ?thesis
    using len grads bias wts fr by (simp add: bp_delta_def)
qed

section \<open>Training step of the network\<close>

lemma train_gradient_loop:
  "fold (train_gradient_step F results targets) [0..<n] acc =
     acc @ map (\<lambda>i. fsub F (results ! i) (targets ! i)) [0..<n]"
  by (induction n) (simp_all add: train_gradient_step_def)

lemma initial_gradient_upt:
  assumes "length results \<le> length targets"
  shows "map (\<lambda>i. fsub F (results ! i) (targets ! i)) [0..<length results] =
     initial_gradient F results targets"
  using assms by (intro nth_equalityI) (simp_all add: initial_gradient_def)

lemma train_back_step_Cons:
  "fold (train_back_step F lr) (map Suc is) (l # ls, g) =
     (l # fst (fold (train_back_step F lr) is (ls, g)), snd (fold (train_back_step F lr) is (ls, g)))"
proof (induction "is" arbitrary: ls g)
  case Nil
  show ?case by simp
next
  case (Cons i "is")
  have "train_back_step F lr (Suc i) (l # ls, g) =
      (l # fst (train_back_step F lr i (ls, g)), snd (train_back_step F lr i (ls, g)))"
    by (simp add: train_back_step_def Let_def)
  then show ?case
    using Cons [of "fst (train_back_step F lr i (ls, g))" "snd (train_back_step F lr i (ls, g))"]
    by simp
qed

lemma rev_upt_Suc: "rev [0..<Suc n] = map Suc (rev [0..<n]) @ [0]"
proof -
  have "[0..<Suc n] = 0 # map Suc [0..<n]"
    by (simp add: upt_conv_Cons map_Suc_upt del: upt_Suc)
  then show ?thesis by (simp add: rev_map del: upt_Suc)
qed

lemma train_back_loop:
  "fold (train_back_step F lr) (rev [0..<length ls]) (ls, g) = backward_sweep F lr ls g"
proof (induction ls)
  case Nil
  show ?case by simp
next
  case (Cons l ls)
  let ?after = "backward_sweep F lr ls g"
  have "fold (train_back_step F lr) (rev [0..<length (l # ls)]) (l # ls, g) =
      train_back_step F lr 0 (fold (train_back_step F lr) (map Suc (rev [0..<length ls])) (l # ls, g))"
    using rev_upt_Suc [of "length ls"] by (simp del: upt_Suc)
  also have "\<dots> = train_back_step F lr 0 (l # fst ?after, snd ?after)"
    by (simp only: train_back_step_Cons Cons.IH)
  also have "\<dots> = backward_sweep F lr (l # ls) g"
    by (simp add: train_back_step_def Let_def)
  finally show ?case .
qed

lemma calculateOutput_frame:
  "fst (calculateOutput F L inputs) = L\<lparr>lastInputs := inputs, lastOutputs := snd (calculateOutput F L inputs)\<rparr>"
  by (simp add: calculateOutput_def Let_def)

lemma length_calculateOutput:
  "length (snd (calculateOutput F L inputs)) = nat (numNodesOut L)"
  by (simp add: calculateOutput_def Let_def length_fold_calc_out)

lemma backPropagate_frame:
  "numNodesIn (fst (backPropagate F L g lr)) = numNodesIn L
   \<and> numNodesOut (fst (backPropagate F L g lr)) = numNodesOut L
   \<and> actType (fst (backPropagate F L g lr)) = actType L
   \<and> lastInputs (fst (backPropagate F L g lr)) = lastInputs L
   \<and> lastOutputs (fst (backPropagate F L g lr)) = lastOutputs L
   \<and> length (weights (fst (backPropagate F L g lr))) = length (weights L)
   \<and> length (biases (fst (backPropagate F L g lr))) = length (biases L)
   \<and> length (snd (backPropagate F L g lr)) = nat (numNodesIn L)"
  using fold_bp_out_frame [of F g lr "[0..<nat (numNodesOut L)]" "(L, replicate (nat (numNodesIn L)) (fof_int F 0))"]
  by (simp add: backPropagate_def Let_def)

lemma feedForward_loop_shape:
  "map shape (fst (feedForward_loop F ls x)) = map shape ls"
proof (induction ls arbitrary: x)
  case Nil
  show ?case by simp
next
  case (Cons l ls)
  have "shape (fst (calculateOutput F l x)) = shape l"
    by (simp add: shape_def calculateOutput_def Let_def)
  then show ?case
    using Cons by (simp add: Let_def)
qed

lemma backward_sweep_shape:
  "map shape (fst (backward_sweep F lr ls g)) = map shape ls"
proof (induction ls)
  case Nil
  show ?case by simp
next
  case (Cons l ls)
  have "shape (fst (backPropagate F l g' lr)) = shape l" for g'
    using backPropagate_frame [of F l g' lr] by (simp add: shape_def)
  then show ?case
    using Cons by (simp add: Let_def)
qed

lemma backward_sweep_memory:
  "map lastInputs (fst (backward_sweep F lr ls g)) = map lastInputs ls
   \<and> map lastOutputs (fst (backward_sweep F lr ls g)) = map lastOutputs ls"
proof (induction ls)
  case Nil
  show ?case by simp
next
  case (Cons l ls)
  have "lastInputs (fst (backPropagate F l g' lr)) = lastInputs l
      \<and> lastOutputs (fst (backPropagate F l g' lr)) = lastOutputs l" for g'
    using backPropagate_frame [of F l g' lr] by simp
  then show ?case
    using Cons by (simp add: Let_def)
qed

lemma length_feedForward_loop:
  assumes "wf_chain ls (int (length x))"
  shows "int (length (snd (feedForward_loop F ls x))) = out_width ls (int (length x))"
  using assms
proof (induction ls arbitrary: x)
  case Nil
  show ?case by simp
next
  case (Cons l ls)
  let ?y = "snd (calculateOutput F l x)"
  have wf: "wf_Layer l" and rest: "wf_chain ls (numNodesOut l)"
    using Cons.prems by simp_all
  have "int (length ?y) = numNodesOut l"
    using wf by (simp add: length_calculateOutput wf_Layer_def)
  then show ?case
    using Cons.IH [of ?y] rest by (simp add: Let_def)
qed

text \<open>
  C6. For a network whose sizes agree with the input, and a target of as many floats as
  the network returns, \<open>train\<close> is: \<open>feedForward\<close>, giving \<open>results\<close>; the gradient
  \<open>results[k] - targets[k]\<close>, one per output unit and unscaled; and \<open>backPropagate\<close> on
  every layer from the last to the first, each with the gradient the one before it
  returned. It returns no value. In every layer the widths, the activation and the
  sizes of the weights and biases are as before: what has changed are the weights and
  biases, and \<open>lastInputs\<close> and \<open>lastOutputs\<close>, which are those the forward pass stored.
\<close>

theorem train_correct:
  assumes "wf_chain (layers net) (int (length inputs))"
    and "int (length targets) = out_width (layers net) (int (length inputs))"
  shows "layers (train F net inputs targets learningRate) =
      fst (backward_sweep F learningRate (layers (fst (feedForward F net inputs)))
             (initial_gradient F (snd (feedForward F net inputs)) targets))
    \<and> length (initial_gradient F (snd (feedForward F net inputs)) targets)
        = length (snd (feedForward F net inputs))
    \<and> map shape (layers (train F net inputs targets learningRate)) = map shape (layers net)
    \<and> map lastInputs (layers (train F net inputs targets learningRate))
        = map lastInputs (layers (fst (feedForward F net inputs)))
    \<and> map lastOutputs (layers (train F net inputs targets learningRate))
        = map lastOutputs (layers (fst (feedForward F net inputs)))"
proof -
  let ?fw = "feedForward F net inputs"
  let ?results = "snd ?fw"
  let ?ls1 = "layers (fst ?fw)"
  let ?g = "initial_gradient F ?results targets"
  have res: "?results = snd (feedForward_loop F (layers net) inputs)"
    and ls1: "?ls1 = fst (feedForward_loop F (layers net) inputs)"
    by (simp_all add: feedForward_def Let_def)
  have "int (length ?results) = out_width (layers net) (int (length inputs))"
    unfolding res using assms(1) by (rule length_feedForward_loop)
  then have len: "length ?results = length targets"
    using assms(2) by simp
  have grad: "fold (train_gradient_step F ?results targets) [0..<length ?results] [] = ?g"
    using initial_gradient_upt [of ?results targets F] len by (simp add: train_gradient_loop)
  have "layers (train F net inputs targets learningRate) =
      fst (fold (train_back_step F learningRate) (rev [0..<length ?ls1])
            (?ls1, fold (train_gradient_step F ?results targets) [0..<length ?results] []))"
    by (simp add: train_def Let_def)
  then have main: "layers (train F net inputs targets learningRate) =
      fst (backward_sweep F learningRate ?ls1 ?g)"
    by (simp only: grad train_back_loop)
  have glen: "length ?g = length ?results"
    using len by (simp add: initial_gradient_def)
  have shp: "map shape (layers (train F net inputs targets learningRate)) = map shape (layers net)"
    unfolding main by (simp add: backward_sweep_shape ls1 feedForward_loop_shape)
  show ?thesis
    using main glen shp backward_sweep_memory [of F learningRate ?ls1 ?g] by simp
qed

section \<open>The layer and the training step on a concrete layer\<close>

lemmas eval_defs = calculateOutput_def calc_out_def calc_step_def activation_def
  activationDerivative_def backPropagate_def bp_out_def bp_step_def fmax_def
  Sigmoid_def Tanh_def ReLU_def LeakyReLU_def exact_ops_def Let_def eval_nat_numeral

theorem calculateOutput_correct_witness:
  "wf_Layer layer_2x1 \<and> int (length [1, 1 :: real]) = numNodesIn layer_2x1
   \<and> calculateOutput exact_ops layer_2x1 [1, 1] = (layer_2x1_fwd, [6])
   \<and> int (length [6 :: real]) = numNodesOut layer_2x1
   \<and> [6 :: real] ! 0 = activation exact_ops (actType layer_2x1)
        (affine_sum exact_ops (biases layer_2x1 ! 0) [1, 1] (column layer_2x1 0))
   \<and> lastInputs layer_2x1_fwd = [1, 1] \<and> lastOutputs layer_2x1_fwd = [6]"
proof -
  have h1: "wf_Layer layer_2x1"
    by (simp add: wf_Layer_def layer_2x1_def)
  have h2: "int (length [1, 1 :: real]) = numNodesIn layer_2x1"
    by (simp add: layer_2x1_def)
  have h3: "calculateOutput exact_ops layer_2x1 [1, 1] = (layer_2x1_fwd, [6])"
    by (simp add: layer_2x1_def layer_2x1_fwd_def eval_defs)
  have "0 < nat (numNodesOut layer_2x1)"
    by (simp add: layer_2x1_def)
  then show ?thesis
    using calculateOutput_correct [OF h1 h2 h3] h1 h2 h3 by blast
qed

theorem backPropagate_correct_witness:
  "wf_Layer layer_2x1_fwd
   \<and> int (length (lastInputs layer_2x1_fwd)) = numNodesIn layer_2x1_fwd
   \<and> int (length (lastOutputs layer_2x1_fwd)) = numNodesOut layer_2x1_fwd
   \<and> int (length [1 :: real]) = numNodesOut layer_2x1_fwd
   \<and> backPropagate exact_ops layer_2x1_fwd [1] 1 = (layer_2x1_trained, [1, 2])
   \<and> int (length [1, 2 :: real]) = numNodesIn layer_2x1_fwd
   \<and> [1, 2 :: real] ! 1 = input_gradient exact_ops layer_2x1_fwd [1] 1
   \<and> biases layer_2x1_trained ! 0 =
       fsub exact_ops (biases layer_2x1_fwd ! 0) (fmul exact_ops 1 (bp_delta exact_ops layer_2x1_fwd [1] 0))
   \<and> weight_at layer_2x1_trained 1 0 = fsub exact_ops (weight_at layer_2x1_fwd 1 0)
       (fmul exact_ops (fmul exact_ops 1 (bp_delta exact_ops layer_2x1_fwd [1] 0)) (lastInputs layer_2x1_fwd ! 1))"
proof -
  have h1: "wf_Layer layer_2x1_fwd"
    by (simp add: wf_Layer_def layer_2x1_fwd_def)
  have h2: "int (length (lastInputs layer_2x1_fwd)) = numNodesIn layer_2x1_fwd"
    and h3: "int (length (lastOutputs layer_2x1_fwd)) = numNodesOut layer_2x1_fwd"
    and h4: "int (length [1 :: real]) = numNodesOut layer_2x1_fwd"
    by (simp_all add: layer_2x1_fwd_def)
  have h5: "backPropagate exact_ops layer_2x1_fwd [1] 1 = (layer_2x1_trained, [1, 2])"
    by (simp add: layer_2x1_fwd_def layer_2x1_trained_def eval_defs)
  have "0 < nat (numNodesOut layer_2x1_fwd)" "1 < nat (numNodesIn layer_2x1_fwd)"
    by (simp_all add: layer_2x1_fwd_def)
  then show ?thesis
    using backPropagate_correct [OF h1 h2 h3 h4 h5] h1 h2 h3 h4 h5 by blast
qed

theorem train_correct_witness:
  "wf_chain (layers net_2x1) (int (length [1, 1 :: real]))
   \<and> int (length [5 :: real]) = out_width (layers net_2x1) (int (length [1, 1 :: real]))
   \<and> layers (train exact_ops net_2x1 [1, 1] [5] 1) = [layer_2x1_trained]
   \<and> snd (feedForward exact_ops net_2x1 [1, 1]) = [6]
   \<and> initial_gradient exact_ops [6] [5] = [1]"
proof -
  have h1: "wf_chain (layers net_2x1) (int (length [1, 1 :: real]))"
    by (simp add: net_2x1_def layer_2x1_def wf_Layer_def)
  have h2: "int (length [5 :: real]) = out_width (layers net_2x1) (int (length [1, 1 :: real]))"
    by (simp add: net_2x1_def layer_2x1_def)
  have c: "calculateOutput exact_ops layer_2x1 [1, 1] = (layer_2x1_fwd, [6])"
    by (simp add: layer_2x1_def layer_2x1_fwd_def eval_defs)
  have fw: "feedForward exact_ops net_2x1 [1, 1] = (\<lparr>layers = [layer_2x1_fwd]\<rparr>, [6])"
    by (simp add: feedForward_def net_2x1_def c)
  have g: "initial_gradient exact_ops [6] [5] = [1]"
    by (simp add: initial_gradient_def exact_ops_def)
  have b: "backPropagate exact_ops layer_2x1_fwd [1] 1 = (layer_2x1_trained, [1, 2])"
    by (simp add: layer_2x1_fwd_def layer_2x1_trained_def eval_defs)
  have "layers (train exact_ops net_2x1 [1, 1] [5] 1) = [layer_2x1_trained]"
    using train_correct [OF h1 h2, of exact_ops 1] by (simp add: fw g b)
  then show ?thesis
    using h1 h2 fw g by simp
qed

section \<open>The model file: save and load\<close>

lemma word_of_bytes_int_bytes: "word_of_bytes (int_bytes n) = word_of_int n"
  unfolding word_of_bytes_def int_bytes_def Let_def
  apply simp
  apply (rule bit_word_eqI)
  subgoal for k
    apply (cases "k < 8"; cases "k < 16"; cases "k < 24")
           apply (auto simp add: bit_simps)
    done
  done

lemma bytes_int_int_bytes: "int32 n \<Longrightarrow> bytes_int (int_bytes n) = n"
  by (simp add: bytes_int_def word_of_bytes_int_bytes int32_def sint_sbintrunc'
      signed_take_bit_int_eq_self)

lemma length_int_bytes: "length (int_bytes n) = 4"
  by (simp add: int_bytes_def Let_def)

lemma take_int_bytes: "take 4 (int_bytes n @ rest) = int_bytes n"
  by (simp add: length_int_bytes)

lemma drop_int_bytes: "drop 4 (int_bytes n @ rest) = rest"
  by (simp add: length_int_bytes)

lemma length_float_block:
  "repr_ok R \<Longrightarrow> length (concat (map (float_bytes R) xs)) = 4 * length xs"
  by (induction xs) (simp_all add: repr_ok_def)

lemma read_floats_block:
  "repr_ok R \<Longrightarrow> read_floats R (length xs) (concat (map (float_bytes R) xs) @ rest) = xs"
  by (induction xs) (simp_all add: repr_ok_def)

lemma save_loop:
  "fold (save_layer R) ls acc =
     acc @ concat (map (\<lambda>l. int_bytes (numNodesIn l) @ int_bytes (numNodesOut l)
       @ int_bytes (actType l) @ concat (map (float_bytes R) (weights l))
       @ concat (map (float_bytes R) (biases l))) ls)"
  by (induction ls arbitrary: acc) (simp_all add: save_layer_def Let_def)

lemma row_block:
  fixes n :: nat
  assumes "k + n \<le> length xs"
  shows "map (\<lambda>j. xs ! (k + j)) [0..<n] = take n (drop k xs)"
  using assms by (intro nth_equalityI) simp_all

lemma rows_concat:
  fixes n :: nat
  assumes "m * n \<le> length xs"
  shows "concat (map (\<lambda>i. map (\<lambda>j. xs ! (i * n + j)) [0..<n]) [0..<m]) = take (m * n) xs"
  using assms
proof (induction m)
  case 0
  show ?case by simp
next
  case (Suc m)
  have le: "m * n \<le> length xs" and le2: "m * n + n \<le> length xs"
    using Suc.prems by simp_all
  have "Suc m * n = m * n + n"
    by simp
  then have "take (Suc m * n) xs = take (m * n) xs @ take n (drop (m * n) xs)"
    by (simp only: take_add)
  then show ?case
    using Suc.IH [OF le] row_block [OF le2] by (simp del: mult_Suc)
qed

lemma row_major_weights:
  assumes "wf_Layer l"
  shows "concat (map (\<lambda>i. map (\<lambda>j. weight_at l i j) [0..<nat (numNodesOut l)])
            [0..<nat (numNodesIn l)]) = weights l"
proof -
  have "int (nat (numNodesIn l) * nat (numNodesOut l)) = int (length (weights l))"
    using assms by (simp add: wf_Layer_def)
  then have len: "nat (numNodesIn l) * nat (numNodesOut l) = length (weights l)"
    by (simp only: int_int_eq)
  show ?thesis
    using rows_concat [of "nat (numNodesIn l)" "nat (numNodesOut l)" "weights l"] len
    by (simp add: weight_at_def)
qed

lemma biases_upt:
  assumes "wf_Layer l"
  shows "map (\<lambda>j. biases l ! j) [0..<nat (numNodesOut l)] = biases l"
proof -
  have "nat (numNodesOut l) = length (biases l)"
    using assms by (auto simp add: wf_Layer_def)
  then show ?thesis by (simp add: map_nth)
qed

lemma layer_layout_wf:
  "wf_Layer l \<Longrightarrow> layer_layout R l =
     int_bytes (numNodesIn l) @ int_bytes (numNodesOut l) @ int_bytes (actType l)
     @ concat (map (float_bytes R) (weights l)) @ concat (map (float_bytes R) (biases l))"
  by (simp add: layer_layout_def row_major_weights biases_upt)

lemma save_bytes:
  assumes "\<forall>l \<in> set (layers net). wf_Layer l"
  shows "save R net True = (net, Some (model_layout R net))"
proof -
  have eq: "map (\<lambda>l. int_bytes (numNodesIn l) @ int_bytes (numNodesOut l)
       @ int_bytes (actType l) @ concat (map (float_bytes R) (weights l))
       @ concat (map (float_bytes R) (biases l))) (layers net) = map (layer_layout R) (layers net)"
    using assms by (simp add: layer_layout_wf)
  show ?thesis
    unfolding save_def Let_def save_loop model_layout_def eq by simp
qed

text \<open>One layer read back from its bytes.\<close>

lemma load_layer_layout:
  assumes "repr_ok R" and "layer32 l"
  shows "load_layer R (layer_layout R l @ rest) = Inr (loaded l, rest)"
proof -
  let ?w = "concat (map (float_bytes R) (weights l))"
  let ?b = "concat (map (float_bytes R) (biases l))"
  let ?s = "int_bytes (numNodesIn l) @ int_bytes (numNodesOut l) @ int_bytes (actType l)
     @ ?w @ ?b @ rest"
  have wf: "wf_Layer l" using assms(2) by (simp add: layer32_def)
  have s: "layer_layout R l @ rest = ?s"
    by (simp add: layer_layout_wf [OF wf])
  have f1: "bytes_int (take 4 ?s) = numNodesIn l"
    using assms(2) by (simp only: take_int_bytes) (simp add: bytes_int_int_bytes layer32_def)
  have f2: "bytes_int (take 4 (drop 4 ?s)) = numNodesOut l"
    using assms(2) by (simp only: take_int_bytes drop_int_bytes) (simp add: bytes_int_int_bytes layer32_def)
  have d8: "drop 8 ?s = int_bytes (actType l) @ ?w @ ?b @ rest"
    by (simp add: length_int_bytes)
  have f3: "bytes_int (take 4 (drop 8 ?s)) = actType l"
    using assms(2) unfolding d8 by (simp only: take_int_bytes) (simp add: bytes_int_int_bytes layer32_def)
  have d12: "drop 12 ?s = ?w @ ?b @ rest"
    by (simp add: length_int_bytes)
  have lw: "length ?w = 4 * length (weights l)" and lb: "length ?b = 4 * length (biases l)"
    using assms(1) by (simp_all add: length_float_block)
  have nw: "nat (numNodesIn l * numNodesOut l) = length (weights l)"
    and nb: "nat (numNodesOut l) = length (biases l)"
    using wf by (auto simp add: wf_Layer_def)
  have pos: "\<not> numNodesIn l * numNodesOut l < 0" "\<not> numNodesOut l < 0"
    using wf by (auto simp add: wf_Layer_def)
  have rng: "\<not> (numNodesIn l * numNodesOut l < - (2 ^ 31) \<or> 2 ^ 31 \<le> numNodesIn l * numNodesOut l)"
    using assms(2) by (auto simp add: layer32_def int32_def)
  have rw: "read_floats R (length (weights l)) (?w @ ?b @ rest) = weights l"
    using assms(1) by (rule read_floats_block)
  have rb: "read_floats R (length (biases l)) (drop (4 * length (weights l)) (?w @ ?b @ rest)) = biases l"
    using read_floats_block [OF assms(1), of "biases l" rest] lw by simp
  have dr: "drop (4 * length (weights l) + 4 * length (biases l)) (?w @ ?b @ rest) = rest"
    using lw lb by simp
  have ln: "\<not> length ?s < 12"
    by (simp add: length_int_bytes)
  have enough: "\<not> length (?w @ ?b @ rest) < 4 * length (weights l) + 4 * length (biases l)"
    using lw lb by simp
  show ?thesis
    unfolding s load_layer_def Let_def f1 f2 f3 d12 nw nb
    using ln pos rng enough rw rb dr by (simp add: loaded_def)
qed

lemma load_layers_layout:
  assumes "repr_ok R" and "\<forall>l \<in> set ls. layer32 l"
  shows "load_layers R (length ls) (concat (map (layer_layout R) ls) @ rest) = Inr (map loaded ls)"
  using assms(2)
proof (induction ls)
  case Nil
  show ?case by simp
next
  case (Cons l ls)
  have l: "layer32 l" and ls: "\<forall>l \<in> set ls. layer32 l"
    using Cons.prems by simp_all
  have "load_layer R (layer_layout R l @ (concat (map (layer_layout R) ls) @ rest))
      = Inr (loaded l, concat (map (layer_layout R) ls) @ rest)"
    using assms(1) l by (rule load_layer_layout)
  then show ?case
    using Cons.IH [OF ls] by simp
qed

lemma load_model_layout:
  assumes "repr_ok R" and "wf_Network net"
  shows "load R net' (Some (model_layout R net)) = Inr (net'\<lparr>layers := map loaded (layers net)\<rparr>)"
proof -
  have all: "\<forall>l \<in> set (layers net). layer32 l"
    using assms(2) by (simp add: wf_Network_def layer32_def)
  have n: "int32 (int (length (layers net)))"
    using assms(2) by (simp add: wf_Network_def)
  let ?body = "concat (map (layer_layout R) (layers net))"
  have "load_layers R (length (layers net)) (?body @ []) = Inr (map loaded (layers net))"
    using assms(1) all by (rule load_layers_layout)
  then have body: "load_layers R (length (layers net)) ?body = Inr (map loaded (layers net))"
    by simp
  have cnt: "nat (bytes_int (take 4 (model_layout R net))) = length (layers net)"
    unfolding model_layout_def by (simp only: take_int_bytes) (simp add: bytes_int_int_bytes n)
  have rest: "drop 4 (model_layout R net) = ?body"
    unfolding model_layout_def by (simp only: drop_int_bytes)
  have len: "\<not> length (model_layout R net) < 4"
    by (simp add: model_layout_def length_int_bytes)
  show ?thesis
    unfolding load_def Let_def using len by (simp add: cnt rest body)
qed

text \<open>The forward pass reads no stored input or output.\<close>

lemma calculateOutput_loaded:
  "snd (calculateOutput F (loaded l) x) = snd (calculateOutput F l x)"
proof -
  have step: "calc_step F (loaded l\<lparr>lastInputs := x\<rparr>) x j = calc_step F (l\<lparr>lastInputs := x\<rparr>) x j" for j
    by (intro ext) (simp add: calc_step_def loaded_def)
  have "calc_out F (loaded l\<lparr>lastInputs := x\<rparr>) x = calc_out F (l\<lparr>lastInputs := x\<rparr>) x"
    by (intro ext) (simp add: calc_out_def step, simp add: loaded_def)
  then show ?thesis
    by (simp add: calculateOutput_def Let_def, simp add: loaded_def)
qed

lemma feedForward_loop_loaded:
  "snd (feedForward_loop F (map loaded ls) x) = snd (feedForward_loop F ls x)"
  by (induction ls arbitrary: x) (simp_all add: Let_def calculateOutput_loaded)

text \<open>
  C3, as the code has it. \<open>save\<close> writes the \<open>int\<close> layer count, then for each layer the
  \<open>int\<close> \<open>numNodesIn\<close>, the \<open>int\<close> \<open>numNodesOut\<close>, the activation tag as the four bytes of
  an \<open>int\<close> (the character \<open>'s'\<close>, \<open>'t'\<close>, \<open>'r'\<close> or \<open>'l'\<close> and three zero bytes), the
  \<open>numNodesIn * numNodesOut\<close> weights row by row (index \<open>in * numNodesOut + out\<close>) and the
  \<open>numNodesOut\<close> biases, four bytes a float; \<open>load\<close> reads the same fields in the same
  order and sizes, and recovers every one of them.
\<close>

theorem model_file_layout:
  assumes "repr_ok R" and "wf_Network net"
  shows "save R net True = (net, Some (model_layout R net))
    \<and> load R net' (Some (model_layout R net)) = Inr (net'\<lparr>layers := map loaded (layers net)\<rparr>)
    \<and> (\<forall>l \<in> set (layers net). length (layer_layout R l) =
          4 + 4 + 4 + 4 * nat (numNodesIn l * numNodesOut l) + 4 * nat (numNodesOut l))
    \<and> int_bytes Sigmoid = [of_char CHR ''s'', 0, 0, 0]
    \<and> int_bytes Tanh = [of_char CHR ''t'', 0, 0, 0]
    \<and> int_bytes ReLU = [of_char CHR ''r'', 0, 0, 0]
    \<and> int_bytes LeakyReLU = [of_char CHR ''l'', 0, 0, 0]"
proof -
  have wf: "\<forall>l \<in> set (layers net). wf_Layer l"
    using assms(2) by (simp add: wf_Network_def layer32_def)
  have len: "length (layer_layout R l) =
      4 + 4 + 4 + 4 * nat (numNodesIn l * numNodesOut l) + 4 * nat (numNodesOut l)"
    if "l \<in> set (layers net)" for l
  proof -
    have l: "wf_Layer l" using wf that by simp
    have "nat (numNodesIn l * numNodesOut l) = length (weights l)"
      "nat (numNodesOut l) = length (biases l)"
      using l by (auto simp add: wf_Layer_def)
    then show ?thesis
      using assms(1) by (simp add: layer_layout_wf [OF l] length_int_bytes length_float_block)
  qed
  have tags: "int_bytes Sigmoid = [of_char CHR ''s'', 0, 0, 0]"
    "int_bytes Tanh = [of_char CHR ''t'', 0, 0, 0]"
    "int_bytes ReLU = [of_char CHR ''r'', 0, 0, 0]"
    "int_bytes LeakyReLU = [of_char CHR ''l'', 0, 0, 0]"
    by (simp_all add: int_bytes_def Sigmoid_def Tanh_def ReLU_def LeakyReLU_def)
  show ?thesis
    using save_bytes [OF wf, of R] load_model_layout [OF assms, of net'] len tags by simp
qed

text \<open>
  C9. A network saved and loaded back returns on every input the floats the original
  returns: the same values, since the file holds the bytes of every weight and bias and
  the forward pass reads nothing else.
\<close>

theorem save_load_feedForward:
  assumes "repr_ok R" and "wf_Network net"
  shows "snd (save R net True) \<noteq> None
    \<and> load R net' (snd (save R net True)) = Inr (net'\<lparr>layers := map loaded (layers net)\<rparr>)
    \<and> snd (feedForward F (net'\<lparr>layers := map loaded (layers net)\<rparr>) x) = snd (feedForward F net x)"
proof -
  have wf: "\<forall>l \<in> set (layers net). wf_Layer l"
    using assms(2) by (simp add: wf_Network_def layer32_def)
  have sv: "snd (save R net True) = Some (model_layout R net)"
    using save_bytes [OF wf, of R] by simp
  have ld: "load R net' (snd (save R net True)) = Inr (net'\<lparr>layers := map loaded (layers net)\<rparr>)"
    unfolding sv using assms by (rule load_model_layout)
  have ff: "snd (feedForward F (net'\<lparr>layers := map loaded (layers net)\<rparr>) x) = snd (feedForward F net x)"
    by (simp add: feedForward_def Let_def feedForward_loop_loaded)
  show ?thesis
    using sv ld ff by simp
qed

section \<open>The model file of a concrete network\<close>

lemma repr_ok_bits_repr: "repr_ok bits_repr"
proof -
  have "word_of_bytes [ucast w, ucast (drop_bit 8 w), ucast (drop_bit 16 w), ucast (drop_bit 24 w)] = w"
    for w :: "32 word"
    using word_of_bytes_int_bytes [of "uint w"] by (simp add: int_bytes_def Let_def)
  then show ?thesis
    by (simp add: repr_ok_def bits_repr_def)
qed

lemma wf_net_1_1_1: "wf_Network net_1_1_1"
  by (simp add: wf_Network_def layer32_def wf_Layer_def int32_def net_1_1_1_def
      Sigmoid_def Tanh_def)

lemma wf_net_1_1_1_used: "wf_Network net_1_1_1_used"
  by (simp add: wf_Network_def layer32_def wf_Layer_def int32_def net_1_1_1_used_def
      Sigmoid_def Tanh_def)

lemma loaded_net_1_1_1:
  "\<lparr>layers = []\<rparr>\<lparr>layers := map loaded (layers net_1_1_1)\<rparr> = net_1_1_1"
  "\<lparr>layers = []\<rparr>\<lparr>layers := map loaded (layers net_1_1_1_used)\<rparr> = net_1_1_1"
  by (simp_all add: net_1_1_1_def net_1_1_1_used_def loaded_def)

theorem model_file_layout_witness:
  "save bits_repr net_1_1_1 True = (net_1_1_1, Some (model_layout bits_repr net_1_1_1))
   \<and> load bits_repr \<lparr>layers = []\<rparr> (Some (model_layout bits_repr net_1_1_1)) = Inr net_1_1_1
   \<and> length (model_layout bits_repr net_1_1_1) = 44"
proof -
  have "length (model_layout bits_repr net_1_1_1) = 44"
    by (simp add: model_layout_def layer_layout_def net_1_1_1_def length_int_bytes bits_repr_def)
  then show ?thesis
    using model_file_layout [OF repr_ok_bits_repr wf_net_1_1_1, of "\<lparr>layers = []\<rparr>"]
    unfolding loaded_net_1_1_1 by blast
qed

text \<open>
  C3, as the specification has it, fails: with a one-byte activation tag the file of
  this network would have 38 bytes, and \<open>save\<close> writes 44.
\<close>

theorem model_file_layout_counterexample:
  "snd (save bits_repr net_1_1_1 True) \<noteq> Some (spec_layout bits_repr net_1_1_1)
   \<and> length (spec_layout bits_repr net_1_1_1) = 38
   \<and> length (the (snd (save bits_repr net_1_1_1 True))) = 44"
proof -
  have a: "length (spec_layout bits_repr net_1_1_1) = 38"
    by (simp add: spec_layout_def spec_layer_layout_def net_1_1_1_def length_int_bytes bits_repr_def)
  have b: "length (the (snd (save bits_repr net_1_1_1 True))) = 44"
    by (simp add: save_def save_layer_def Let_def net_1_1_1_def length_int_bytes bits_repr_def)
  have "snd (save bits_repr net_1_1_1 True) \<noteq> Some (spec_layout bits_repr net_1_1_1)"
  proof
    assume "snd (save bits_repr net_1_1_1 True) = Some (spec_layout bits_repr net_1_1_1)"
    then have "the (snd (save bits_repr net_1_1_1 True)) = spec_layout bits_repr net_1_1_1"
      by simp
    then have "length (the (snd (save bits_repr net_1_1_1 True))) = length (spec_layout bits_repr net_1_1_1)"
      by simp
    then show False
      using a b by simp
  qed
  then show ?thesis
    using a b by simp
qed

theorem save_load_feedForward_witness:
  "snd (save bits_repr net_1_1_1_used True) \<noteq> None
   \<and> load bits_repr \<lparr>layers = []\<rparr> (snd (save bits_repr net_1_1_1_used True)) = Inr net_1_1_1
   \<and> snd (feedForward word_ops net_1_1_1 [0x40000000])
       = snd (feedForward word_ops net_1_1_1_used [0x40000000])"
  using save_load_feedForward [OF repr_ok_bits_repr wf_net_1_1_1_used,
      of "\<lparr>layers = []\<rparr>" word_ops "[0x40000000]"]
  unfolding loaded_net_1_1_1 by blast

text \<open>
  C1 on the code. \<open>load\<close> on a file that cannot be opened returns before
  \<open>layers.clear()\<close>: the network of \<open>src/draw.cpp\<close> keeps its two layers, and the test
  \<open>net.layers.empty()\<close> that follows the call there does not see the failure. \<open>save\<close> on
  a file that cannot be opened writes nothing and leaves the network as it is.
\<close>

theorem load_open_failure_keeps_layers:
  "load bits_repr net_1_1_1 None = Inr net_1_1_1
   \<and> length (layers net_1_1_1) = 2
   \<and> save bits_repr net_1_1_1 False = (net_1_1_1, None)"
  by (simp add: load_def save_def net_1_1_1_def)

section \<open>The dataset decoder\<close>

lemma masks: "(0xFF000000 :: 32 word) = push_bit 24 (mask 8)" "(0x00FF0000 :: 32 word) = push_bit 16 (mask 8)"
  "(0x0000FF00 :: 32 word) = push_bit 8 (mask 8)" "(0xFF :: 32 word) = mask 8"
  by (simp_all add: mask_eq_exp_minus_1 push_bit_eq_mult)

lemma swap_bytes:
  "swapEndian (word_of_bytes bs) =
     push_bit 24 (ucast (bs ! 0)) OR push_bit 16 (ucast (bs ! 1)) OR push_bit 8 (ucast (bs ! 2)) OR ucast (bs ! 3)"
  unfolding swapEndian_def word_of_bytes_def masks
  apply (rule bit_word_eqI)
  subgoal for k
    apply (cases "k < 8"; cases "k < 16"; cases "k < 24")
           apply (auto simp add: bit_simps dest: bit_imp_le_length)
    done
  done

lemma byte_sum:
  fixes a b c d :: byte
  shows "(push_bit 24 (ucast a) OR push_bit 16 (ucast b) OR push_bit 8 (ucast c) OR ucast d :: 32 word)
     = word_of_nat (unat a * 2 ^ 24 + unat b * 2 ^ 16 + unat c * 2 ^ 8 + unat d)"
proof -
  have d1: "push_bit 8 (ucast c :: 32 word) OR ucast d = push_bit 8 (ucast c) + ucast d"
    by (rule disjunctive_add_eq_or [symmetric]) (rule bit_word_eqI, auto simp add: bit_simps dest: bit_imp_le_length)
  have d2: "push_bit 16 (ucast b :: 32 word) OR (push_bit 8 (ucast c) OR ucast d)
      = push_bit 16 (ucast b) + (push_bit 8 (ucast c) OR ucast d)"
    by (rule disjunctive_add_eq_or [symmetric]) (rule bit_word_eqI, auto simp add: bit_simps dest: bit_imp_le_length)
  have d3: "push_bit 24 (ucast a :: 32 word) OR (push_bit 16 (ucast b) OR (push_bit 8 (ucast c) OR ucast d))
      = push_bit 24 (ucast a) + (push_bit 16 (ucast b) OR (push_bit 8 (ucast c) OR ucast d))"
    by (rule disjunctive_add_eq_or [symmetric]) (rule bit_word_eqI, auto simp add: bit_simps dest: bit_imp_le_length)
  have "(push_bit 24 (ucast a) OR push_bit 16 (ucast b) OR push_bit 8 (ucast c) OR ucast d :: 32 word)
      = push_bit 24 (ucast a) + (push_bit 16 (ucast b) OR (push_bit 8 (ucast c) OR ucast d))"
    by (rule d3)
  also have "\<dots> = push_bit 24 (ucast a) + (push_bit 16 (ucast b) + (push_bit 8 (ucast c) OR ucast d))"
    by (simp only: d2)
  also have "\<dots> = push_bit 24 (ucast a) + (push_bit 16 (ucast b) + (push_bit 8 (ucast c) + ucast d))"
    by (simp only: d1)
  also have "\<dots> = word_of_nat (unat a * 2 ^ 24 + unat b * 2 ^ 16 + unat c * 2 ^ 8 + unat d)"
    by (simp add: push_bit_eq_mult)
  finally show ?thesis .
qed

lemma be32_bound: "be32 bs < 2 ^ 32"
proof -
  have "unat x \<le> 255" for x :: byte
    using unsigned_less [of x, where 'a = nat] by simp
  then have "unat (bs ! 0) \<le> 255" "unat (bs ! 1) \<le> 255" "unat (bs ! 2) \<le> 255" "unat (bs ! 3) \<le> 255"
    by simp_all
  then show ?thesis
    unfolding be32_def by simp
qed

lemma unat_swapEndian: "unat (swapEndian (word_of_bytes bs)) = be32 bs"
proof -
  have "swapEndian (word_of_bytes bs) = word_of_nat (be32 bs)"
    by (simp add: swap_bytes byte_sum be32_def)
  then show ?thesis
    using be32_bound [of bs] by (simp add: unat_of_nat)
qed

lemma word_eq_unat: "unat (w :: 32 word) = n \<Longrightarrow> n < 2 ^ 32 \<Longrightarrow> w = word_of_nat n"
  by auto

lemma magic_word:
  "swapEndian (word_of_bytes bs) = 2051 \<longleftrightarrow> be32 bs = 2051"
  "swapEndian (word_of_bytes bs) = 2049 \<longleftrightarrow> be32 bs = 2049"
  using unat_swapEndian [of bs] by (auto simp add: word_unat_eq_iff)

lemma count_word:
  "swapEndian (word_of_bytes bs) = swapEndian (word_of_bytes cs) \<longleftrightarrow> be32 bs = be32 cs"
  using unat_swapEndian [of bs] unat_swapEndian [of cs] by (auto simp add: word_unat_eq_iff)

lemma image_size:
  assumes "be32 rs * be32 cs < 2 ^ 31"
  shows "sint (swapEndian (word_of_bytes rs) * swapEndian (word_of_bytes cs)) = int (be32 rs * be32 cs)"
proof -
  let ?r = "swapEndian (word_of_bytes rs)" and ?c = "swapEndian (word_of_bytes cs)"
  have "unat ?r * unat ?c < 2 ^ LENGTH(32)"
    using assms by (simp add: unat_swapEndian)
  then have u: "unat (?r * ?c) = be32 rs * be32 cs"
    by (simp add: unat_mult_lem [THEN iffD1] unat_swapEndian)
  then have "uint (?r * ?c) = int (be32 rs * be32 cs)"
    by (metis uint_nat)
  moreover have "sint (?r * ?c) = signed_take_bit 31 (uint (?r * ?c))"
    by (simp add: sint_uint)
  moreover have "int (be32 rs * be32 cs) < 2 ^ 31"
    using assms by (metis of_nat_less_iff of_nat_numeral of_nat_power)
  moreover have "- (2 ^ 31) \<le> int (be32 rs * be32 cs)"
  proof -
    have "- (2 ^ 31 :: int) \<le> 0" by simp
    moreover have "0 \<le> int (be32 rs * be32 cs)" by simp
    ultimately show ?thesis by (rule order_trans)
  qed
  ultimately show ?thesis
    by (simp only: signed_take_bit_int_eq_self)
qed

lemma make_target_total:
  "make_target F lab =
     Inr (if 0 \<le> lab \<and> lab < 10 then (replicate 10 (fof_int F 0))[nat lab := fof_int F 1]
          else replicate 10 (fof_int F 0))"
  by (simp add: make_target_def store_def Let_def)

lemma make_target_byte:
  "make_target F (uint (b :: byte)) =
     Inr (map (\<lambda>i. if uint b = int i then fof_int F 1 else fof_int F 0) [0..<10])"
proof -
  define k where "k = unat b"
  have ub: "uint b = int k" by (simp add: k_def)
  show ?thesis
  proof (cases "k < 10")
    case True
    have "(replicate 10 (fof_int F 0))[k := fof_int F 1] =
        map (\<lambda>i. if k = i then fof_int F 1 else fof_int F 0) [0..<10]"
      using True by (intro nth_equalityI) (auto simp add: nth_list_update)
    then show ?thesis
      using True by (simp add: make_target_total ub)
  next
    case False
    have "replicate 10 (fof_int F 0) =
        map (\<lambda>i. if k = i then fof_int F 1 else fof_int F 0) [0..<10]"
      using False by (intro nth_equalityI) auto
    then show ?thesis
      using False by (simp add: make_target_total ub)
  qed
qed

lemma push_pixel_loop:
  "fold (push_pixel F buf) [0..<n] acc = acc @ map (\<lambda>j. normalize F (buf ! j)) [0..<n]"
  by (induction n) (simp_all add: push_pixel_def normalize_def)

lemma push_pixel_all:
  "fold (push_pixel F buf) [0..<length buf] [] = map (normalize F) buf"
proof -
  have "map (\<lambda>j. normalize F (buf ! j)) [0..<length buf] = map (normalize F) buf"
    by (intro nth_equalityI) simp_all
  then show ?thesis
    by (simp add: push_pixel_loop)
qed

lemma read_record_full:
  assumes "1 \<le> length lbl" and "sz \<le> length img"
  shows "read_record F sz img lbl =
     Inr (decode_sample F (take sz img) (lbl ! 0), drop sz img, drop 1 lbl)"
proof -
  have buf: "take sz img @ replicate (sz - length img) 0 = take sz img"
    using assms(2) by simp
  have len: "length (take sz img) = sz"
    using assms(2) by simp
  have px: "fold (push_pixel F (take sz img)) [0..<sz] [] = map (normalize F) (take sz img)"
    using push_pixel_all [of F "take sz img"] len by simp
  show ?thesis
    unfolding read_record_def Let_def buf px make_target_byte
    using assms(1) by (cases lbl) (simp_all add: decode_sample_def)
qed

lemma read_records_full:
  assumes "n \<le> length lbl" and "n * sz \<le> length img"
  shows "read_records F sz n img lbl =
     Inr (map (\<lambda>k. decode_sample F (take sz (drop (k * sz) img)) (lbl ! k)) [0..<n])"
  using assms
proof (induction n arbitrary: img lbl)
  case 0
  show ?case by simp
next
  case (Suc n)
  have l1: "1 \<le> length lbl" and i1: "sz \<le> length img"
    using Suc.prems by simp_all
  have l2: "n \<le> length (drop 1 lbl)" and i2: "n * sz \<le> length (drop sz img)"
    using Suc.prems by simp_all
  have rec: "read_record F sz img lbl =
      Inr (decode_sample F (take sz img) (lbl ! 0), drop sz img, drop 1 lbl)"
    using l1 i1 by (rule read_record_full)
  have shift: "decode_sample F (take sz (drop (k * sz) (drop sz img))) (drop 1 lbl ! k) =
      decode_sample F (take sz (drop (Suc k * sz) img)) (lbl ! Suc k)" if "k < n" for k
    using that Suc.prems(1) by (simp add: add.commute)
  have "map (\<lambda>k. decode_sample F (take sz (drop (k * sz) (drop sz img))) (drop 1 lbl ! k)) [0..<n]
      = map (\<lambda>k. decode_sample F (take sz (drop (Suc k * sz) img)) (lbl ! Suc k)) [0..<n]"
    using shift by (intro map_cong) simp_all
  then have "read_records F sz (Suc n) img lbl =
      Inr (decode_sample F (take sz img) (lbl ! 0)
        # map (\<lambda>k. decode_sample F (take sz (drop (Suc k * sz) img)) (lbl ! Suc k)) [0..<n])"
    using Suc.IH [OF l2 i2] by (simp add: rec)
  also have "decode_sample F (take sz img) (lbl ! 0)
        # map (\<lambda>k. decode_sample F (take sz (drop (Suc k * sz) img)) (lbl ! Suc k)) [0..<n]
      = map (\<lambda>k. decode_sample F (take sz (drop (k * sz) img)) (lbl ! k)) [0..<Suc n]"
    by (simp add: map_upt_Suc del: upt_Suc)
  finally show ?case .
qed

text \<open>The records a well-formed pair of files decodes to.\<close>

lemma load_well_formed:
  assumes "well_formed_pair imgFile lblFile" and sz: "record_size imgFile < 2 ^ 31"
  shows "MnistLoader_load F (Some imgFile) (Some lblFile) = Inr (decoded_samples F imgFile lblFile)"
proof -
  define n where "n = num_records imgFile"
  define sz where "sz = record_size imgFile"
  have h1: "16 \<le> length imgFile" and h2: "8 \<le> length lblFile"
    and m1: "be32 (take 4 imgFile) = 2051" and m2: "be32 (take 4 lblFile) = 2049"
    and cnt: "num_records imgFile = be32 (take 4 (drop 4 lblFile))"
    and li0: "length imgFile = 16 + num_records imgFile * record_size imgFile"
    and ll0: "length lblFile = 8 + num_records imgFile"
    using assms(1) unfolding well_formed_pair_def by blast+
  have li: "length imgFile = 16 + n * sz" and ll: "length lblFile = 8 + n"
    using li0 ll0 unfolding n_def sz_def .
  have hdr: "\<not> (length imgFile < 16 \<or> length lblFile < 8)"
    using h1 h2 by simp
  have size: "sint (swapEndian (word_of_bytes (take 4 (drop 8 imgFile)))
      * swapEndian (word_of_bytes (take 4 (drop 12 imgFile)))) = int sz"
    unfolding sz_def record_size_def using sz unfolding record_size_def by (rule image_size)
  have num: "unat (swapEndian (word_of_bytes (take 4 (drop 4 imgFile)))) = n"
    by (simp add: unat_swapEndian n_def num_records_def)
  have same: "be32 (take 4 (drop 4 imgFile)) = be32 (take 4 (drop 4 lblFile))"
    using cnt by (simp add: num_records_def)
  have "MnistLoader_load F (Some imgFile) (Some lblFile) =
      read_records F sz n (drop 16 imgFile) (drop 8 lblFile)"
    unfolding MnistLoader_load_def Let_def
    using hdr by (simp add: magic_word count_word m1 m2 same size num)
  also have "\<dots> = Inr (map (\<lambda>k. decode_sample F (take sz (drop (k * sz) (drop 16 imgFile)))
      (drop 8 lblFile ! k)) [0..<n])"
    using li ll by (intro read_records_full) simp_all
  also have "map (\<lambda>k. decode_sample F (take sz (drop (k * sz) (drop 16 imgFile))) (drop 8 lblFile ! k)) [0..<n]
      = map (\<lambda>k. decode_sample F (record_bytes imgFile sz k) (label_byte lblFile k)) [0..<n]"
    using ll by (intro map_cong) (simp_all add: record_bytes_def label_byte_def add.commute)
  finally show ?thesis
    unfolding n_def sz_def decoded_samples_def .
qed

lemma nth_decoded_samples:
  "k < num_records imgFile \<Longrightarrow>
   decoded_samples F imgFile lblFile ! k =
     decode_sample F (record_bytes imgFile (record_size imgFile) k) (label_byte lblFile k)"
  by (simp add: decoded_samples_def)

lemma one_hot_decode_sample:
  assumes "unat b \<le> 9"
  shows "one_hot F (target (decode_sample F px b)) (unat b)"
proof -
  have "uint b = int i \<longleftrightarrow> i = unat b" for i
    by (metis nat_int uint_nat)
  then show ?thesis
    using assms by (simp add: one_hot_def decode_sample_def)
qed


lemma normalize_unit:
  assumes "div255_monotone F"
  shows "in_unit_interval F (normalize F b)"
proof -
  have lo: "0 \<le> uint b" by simp
  have "uint b < 2 ^ LENGTH(8)" by (rule uint_lt2p)
  then have hi: "uint b \<le> 255" by simp
  have z: "fdiv F (fof_int F 0) (fof_int F 255) = fof_int F 0"
    and o: "fdiv F (fof_int F 255) (fof_int F 255) = fof_int F 1"
    and mono: "\<And>a b. 0 \<le> a \<and> a \<le> b \<and> b \<le> 255 \<Longrightarrow>
        fle F (fdiv F (fof_int F a) (fof_int F 255)) (fdiv F (fof_int F b) (fof_int F 255))"
    using assms unfolding div255_monotone_def by blast+
  have "fle F (fdiv F (fof_int F 0) (fof_int F 255)) (fdiv F (fof_int F (uint b)) (fof_int F 255))"
    using lo hi by (intro mono) simp
  moreover have "fle F (fdiv F (fof_int F (uint b)) (fof_int F 255)) (fdiv F (fof_int F 255) (fof_int F 255))"
    using lo hi by (intro mono) simp
  ultimately show ?thesis
    unfolding in_unit_interval_def normalize_def z o by simp
qed



text \<open>
  C7, as the code has it. A well-formed pair of files whose record size \<open>rows * cols\<close> is
  below \<open>2^31\<close>, so that it fits the \<open>int imageSize\<close> of the code, and whose label bytes are
  digits decodes to one sample per record, in file order: the pixels of sample \<open>k\<close> are
  the bytes of record \<open>k\<close> divided by \<open>255\<close>, in \<open>[0, 1]\<close> where dividing by \<open>255\<close> is
  monotone with \<open>0 / 255 = 0\<close> and \<open>255 / 255 = 1\<close>; its label is label byte \<open>k\<close>, between
  \<open>0\<close> and \<open>9\<close>; and its target is one-hot at the label.
\<close>

theorem MnistLoader_load_correct:
  assumes "well_formed_pair imgFile lblFile"
    and "record_size imgFile < 2 ^ 31"
    and "\<forall>k < num_records imgFile. unat (label_byte lblFile k) \<le> 9"
  shows "MnistLoader_load F (Some imgFile) (Some lblFile) = Inr (decoded_samples F imgFile lblFile)
    \<and> length (decoded_samples F imgFile lblFile) = num_records imgFile
    \<and> (\<forall>k < num_records imgFile.
          pixels (decoded_samples F imgFile lblFile ! k)
            = map (normalize F) (record_bytes imgFile (record_size imgFile) k)
          \<and> (div255_monotone F \<longrightarrow>
                list_all (in_unit_interval F) (pixels (decoded_samples F imgFile lblFile ! k)))
          \<and> label (decoded_samples F imgFile lblFile ! k) = uint (label_byte lblFile k)
          \<and> 0 \<le> label (decoded_samples F imgFile lblFile ! k)
          \<and> label (decoded_samples F imgFile lblFile ! k) \<le> 9
          \<and> one_hot F (target (decoded_samples F imgFile lblFile ! k))
                (nat (label (decoded_samples F imgFile lblFile ! k))))"
proof -
  have props: "pixels (decoded_samples F imgFile lblFile ! k)
            = map (normalize F) (record_bytes imgFile (record_size imgFile) k)
          \<and> (div255_monotone F \<longrightarrow>
                list_all (in_unit_interval F) (pixels (decoded_samples F imgFile lblFile ! k)))
          \<and> label (decoded_samples F imgFile lblFile ! k) = uint (label_byte lblFile k)
          \<and> 0 \<le> label (decoded_samples F imgFile lblFile ! k)
          \<and> label (decoded_samples F imgFile lblFile ! k) \<le> 9
          \<and> one_hot F (target (decoded_samples F imgFile lblFile ! k))
                (nat (label (decoded_samples F imgFile lblFile ! k)))"
    if k: "k < num_records imgFile" for k
  proof -
    let ?b = "label_byte lblFile k"
    let ?px = "record_bytes imgFile (record_size imgFile) k"
    have digit: "unat ?b \<le> 9" using assms(3) k by simp
    have s: "decoded_samples F imgFile lblFile ! k = decode_sample F ?px ?b"
      using k by (rule nth_decoded_samples)
    have px: "pixels (decoded_samples F imgFile lblFile ! k) = map (normalize F) ?px"
      and lb: "label (decoded_samples F imgFile lblFile ! k) = uint ?b"
      unfolding s by (simp_all add: decode_sample_def)
    have "list_all (in_unit_interval F) (map (normalize F) ?px)" if "div255_monotone F"
      using normalize_unit [OF that] by (simp add: list_all_iff)
    then have unit: "div255_monotone F \<longrightarrow>
        list_all (in_unit_interval F) (pixels (decoded_samples F imgFile lblFile ! k))"
      unfolding px by blast
    have "uint ?b = int (unat ?b)"
      by (rule uint_nat)
    then have "0 \<le> uint ?b" "uint ?b \<le> 9"
      using digit by linarith+
    then have rng: "0 \<le> label (decoded_samples F imgFile lblFile ! k)"
      "label (decoded_samples F imgFile lblFile ! k) \<le> 9"
      unfolding lb .
    have "one_hot F (target (decode_sample F ?px ?b)) (nat (uint ?b))"
      using one_hot_decode_sample [OF digit, of F ?px] by simp
    then have oh: "one_hot F (target (decoded_samples F imgFile lblFile ! k))
        (nat (label (decoded_samples F imgFile lblFile ! k)))"
      unfolding lb unfolding s .
    show ?thesis
      using px unit lb rng oh by blast
  qed
  have len: "length (decoded_samples F imgFile lblFile) = num_records imgFile"
    by (simp add: decoded_samples_def)
  show ?thesis
    using load_well_formed [OF assms(1,2), of F] len props by blast
qed

text \<open>
  C8. When the files have their headers and the image magic number is not \<open>2051\<close>, or
  the label magic number is not \<open>2049\<close>, or the two counts differ, \<open>MnistLoader::load\<close>
  returns the empty dataset: it does not throw and decodes no record.
\<close>

theorem MnistLoader_load_rejects:
  assumes "16 \<le> length imgFile" and "8 \<le> length lblFile"
    and "be32 (take 4 imgFile) \<noteq> 2051 \<or> be32 (take 4 lblFile) \<noteq> 2049
         \<or> be32 (take 4 (drop 4 imgFile)) \<noteq> be32 (take 4 (drop 4 lblFile))"
  shows "MnistLoader_load F (Some imgFile) (Some lblFile) = Inr []"
proof -
  have hdr: "\<not> (length imgFile < 16 \<or> length lblFile < 8)"
    using assms(1,2) by simp
  show ?thesis
    unfolding MnistLoader_load_def Let_def
    using hdr assms(3) by (auto simp add: magic_word count_word)
qed


section \<open>The decoder on concrete files\<close>

lemmas file_defs = img_file_2_def lbl_file_2_def lbl_file_2_bad_label_def lbl_file_2_bad_magic_def
  be32_def num_records_def record_size_def

lemma upt_2: "[0..<2] = [0, 1]"
  by (simp add: upt_conv_Cons)

lemma upt_10: "[0..<10] = [0, 1, 2, 3, 4, 5, 6, 7, 8, 9]"
  by (simp add: upt_conv_Cons)

lemma div255_monotone_exact_ops: "div255_monotone exact_ops"
  by (simp add: div255_monotone_def exact_ops_def divide_right_mono)

lemma well_formed_files_2:
  "well_formed_pair img_file_2 lbl_file_2" "well_formed_pair img_file_2 lbl_file_2_bad_label"
  by (simp_all add: well_formed_pair_def file_defs)

lemma num_records_2: "num_records img_file_2 = 2"
  by (simp add: file_defs)

lemma record_size_2: "record_size img_file_2 < 2 ^ 31"
  by (simp add: file_defs)

theorem MnistLoader_load_correct_witness:
  "well_formed_pair img_file_2 lbl_file_2
   \<and> record_size img_file_2 < 2 ^ 31
   \<and> MnistLoader_load exact_ops (Some img_file_2) (Some lbl_file_2) =
       Inr [\<lparr>pixels = [0, 1], target = [0, 0, 0, 1, 0, 0, 0, 0, 0, 0], label = 3\<rparr>,
            \<lparr>pixels = [1, 0], target = [0, 0, 0, 0, 0, 0, 0, 0, 0, 1], label = 9\<rparr>]
   \<and> one_hot exact_ops (target (decoded_samples exact_ops img_file_2 lbl_file_2 ! 1))
        (nat (label (decoded_samples exact_ops img_file_2 lbl_file_2 ! 1)))
   \<and> list_all (in_unit_interval exact_ops) (pixels (decoded_samples exact_ops img_file_2 lbl_file_2 ! 1))"
proof -
  have digits: "\<forall>k < num_records img_file_2. unat (label_byte lbl_file_2 k) \<le> 9"
    unfolding num_records_2 by (simp add: label_byte_def lbl_file_2_def less_2_cases_iff)
  have samples: "decoded_samples exact_ops img_file_2 lbl_file_2 =
      [\<lparr>pixels = [0, 1], target = [0, 0, 0, 1, 0, 0, 0, 0, 0, 0], label = 3\<rparr>,
       \<lparr>pixels = [1, 0], target = [0, 0, 0, 0, 0, 0, 0, 0, 0, 1], label = 9\<rparr>]"
    unfolding decoded_samples_def num_records_2
    by (simp add: file_defs decode_sample_def record_bytes_def label_byte_def normalize_def
        exact_ops_def upt_2 upt_10)
  have one: "(1 :: nat) < num_records img_file_2"
    by (simp add: num_records_2)
  note th = MnistLoader_load_correct [OF well_formed_files_2(1) record_size_2 digits, of exact_ops]
  have "MnistLoader_load exact_ops (Some img_file_2) (Some lbl_file_2)
      = Inr (decoded_samples exact_ops img_file_2 lbl_file_2)"
    using th by blast
  moreover have "one_hot exact_ops (target (decoded_samples exact_ops img_file_2 lbl_file_2 ! 1))
        (nat (label (decoded_samples exact_ops img_file_2 lbl_file_2 ! 1)))"
    using th one by blast
  moreover have "list_all (in_unit_interval exact_ops) (pixels (decoded_samples exact_ops img_file_2 lbl_file_2 ! 1))"
    using th one div255_monotone_exact_ops by blast
  ultimately show ?thesis
    using well_formed_files_2(1) record_size_2 unfolding samples by blast
qed

theorem MnistLoader_load_rejects_witness:
  "16 \<le> length img_file_2 \<and> 8 \<le> length lbl_file_2_bad_magic
   \<and> be32 (take 4 lbl_file_2_bad_magic) = 2051
   \<and> MnistLoader_load exact_ops (Some img_file_2) (Some lbl_file_2_bad_magic) = Inr []"
proof -
  have h1: "16 \<le> length img_file_2" and h2: "8 \<le> length lbl_file_2_bad_magic"
    by (simp_all add: file_defs)
  have m: "be32 (take 4 lbl_file_2_bad_magic) = 2051"
    by (simp add: file_defs)
  then have h3: "be32 (take 4 img_file_2) \<noteq> 2051 \<or> be32 (take 4 lbl_file_2_bad_magic) \<noteq> 2049
         \<or> be32 (take 4 (drop 4 img_file_2)) \<noteq> be32 (take 4 (drop 4 lbl_file_2_bad_magic))"
    by simp
  show ?thesis
    using MnistLoader_load_rejects [OF h1 h2 h3, of exact_ops] h1 h2 m by simp
qed


lemma length_zero_bytes: "length (zero_bytes n) = n"
  by (simp add: zero_bytes_def)

lemma header_65536:
  "take 4 img_file_65536 = [0, 0, 8, 3]" "take 4 (drop 4 img_file_65536) = [0, 0, 0, 1]"
  "take 4 (drop 8 img_file_65536) = [0, 1, 0, 0]" "take 4 (drop 12 img_file_65536) = [0, 1, 0, 0]"
  "drop 16 img_file_65536 = zero_bytes (2 ^ 32)" "length img_file_65536 = 16 + 2 ^ 32"
  by (simp_all add: img_file_65536_def length_zero_bytes)

lemma header_2_31:
  "take 4 img_file_2_31 = [0, 0, 8, 3]" "take 4 (drop 4 img_file_2_31) = [0, 0, 0, 1]"
  "take 4 (drop 8 img_file_2_31) = [128, 0, 0, 0]" "take 4 (drop 12 img_file_2_31) = [0, 0, 0, 1]"
  "drop 16 img_file_2_31 = zero_bytes (2 ^ 31)" "length img_file_2_31 = 16 + 2 ^ 31"
  by (simp_all add: img_file_2_31_def length_zero_bytes)

lemma header_lbl_1:
  "take 4 lbl_file_1 = [0, 0, 8, 1]" "take 4 (drop 4 lbl_file_1) = [0, 0, 0, 1]"
  "drop 8 lbl_file_1 = [3]" "length lbl_file_1 = 9" "label_byte lbl_file_1 0 = 3"
  by (simp_all add: lbl_file_1_def label_byte_def)

lemma sizes_big:
  "num_records img_file_65536 = 1" "record_size img_file_65536 = 2 ^ 32"
  "num_records img_file_2_31 = 1" "record_size img_file_2_31 = 2 ^ 31"
  by (simp_all add: num_records_def record_size_def header_65536 header_2_31 be32_def)

lemma wf_big:
  "well_formed_pair img_file_65536 lbl_file_1" "well_formed_pair img_file_2_31 lbl_file_1"
  unfolding well_formed_pair_def sizes_big header_65536 header_2_31 header_lbl_1
  by (simp_all add: be32_def)

lemma words_big:
  "swapEndian (word_of_bytes [0, 0, 8, 3]) = 2051" "swapEndian (word_of_bytes [0, 0, 8, 1]) = 2049"
  "swapEndian (word_of_bytes [0, 0, 0, 1]) = 1" "swapEndian (word_of_bytes [0, 1, 0, 0]) = 65536"
  "swapEndian (word_of_bytes [128, 0, 0, 0]) = 2147483648"
  by (simp_all add: swapEndian_def word_of_bytes_def)

lemma load_65536:
  "MnistLoader_load exact_ops (Some img_file_65536) (Some lbl_file_1) =
     Inr [\<lparr>pixels = [], target = [0, 0, 0, 1, 0, 0, 0, 0, 0, 0], label = 3\<rparr>]"
proof -
  have rr: "read_record exact_ops 0 zs [3] =
      Inr (decode_sample exact_ops (take 0 zs) ([3] ! 0), drop 0 zs, drop 1 [3])" for zs
    by (rule read_record_full) simp_all
  have d: "decode_sample exact_ops [] 3 =
      \<lparr>pixels = [], target = [0, 0, 0, 1, 0, 0, 0, 0, 0, 0], label = 3\<rparr>"
    by (simp add: decode_sample_def upt_10 exact_ops_def)
  show ?thesis
    unfolding MnistLoader_load_def Let_def
    by (simp add: header_65536 header_lbl_1 words_big rr d)
qed

lemma load_2_31:
  "MnistLoader_load exact_ops (Some img_file_2_31) (Some lbl_file_1) = Inl LengthError"
  unfolding MnistLoader_load_def Let_def
  by (simp add: header_2_31 header_lbl_1 words_big)

text \<open>
  C7, as the specification has it, fails on files whose record size does not fit the
  \<open>int imageSize\<close> of the code. Both pairs here have the two magic numbers, one record,
  one label \<open>3\<close> and exactly the bytes their headers announce. With \<open>65536\<close> rows and
  \<open>65536\<close> columns the record has \<open>2^32\<close> bytes, \<open>rows * cols\<close> wraps to \<open>0\<close> and the
  sample has no pixels; with \<open>2^31\<close> rows and one column \<open>imageSize\<close> is negative and
  \<open>reserve\<close> throws \<open>std::length_error\<close>.
\<close>

theorem MnistLoader_load_int_size_counterexample:
  "well_formed_pair img_file_65536 lbl_file_1
   \<and> unat (label_byte lbl_file_1 0) \<le> 9
   \<and> num_records img_file_65536 = 1
   \<and> length (record_bytes img_file_65536 (record_size img_file_65536) 0) = 2 ^ 32
   \<and> MnistLoader_load exact_ops (Some img_file_65536) (Some lbl_file_1) =
       Inr [\<lparr>pixels = [], target = [0, 0, 0, 1, 0, 0, 0, 0, 0, 0], label = 3\<rparr>]
   \<and> well_formed_pair img_file_2_31 lbl_file_1
   \<and> num_records img_file_2_31 = 1
   \<and> length (record_bytes img_file_2_31 (record_size img_file_2_31) 0) = 2 ^ 31
   \<and> MnistLoader_load exact_ops (Some img_file_2_31) (Some lbl_file_1) = Inl LengthError"
proof -
  have digit: "unat (label_byte lbl_file_1 0) \<le> 9"
    by (simp add: header_lbl_1)
  have l1: "length (record_bytes img_file_65536 (record_size img_file_65536) 0) = 2 ^ 32"
    unfolding sizes_big record_bytes_def by (simp add: header_65536 length_zero_bytes)
  have l2: "length (record_bytes img_file_2_31 (record_size img_file_2_31) 0) = 2 ^ 31"
    unfolding sizes_big record_bytes_def by (simp add: header_2_31 length_zero_bytes)
  show ?thesis
    using wf_big digit sizes_big(1,3) l1 l2 load_65536 load_2_31 by blast
qed

section \<open>scaleImage\<close>

lemma scale_pixel_update:
  "scale_pixel F src scale srcW srcH dstW dstH y x out =
     out[y * nat dstW + x := scale_value F src scale srcW srcH dstW dstH y x]"
  by (simp add: scale_pixel_def scale_value_def outside_half_open_region_def src_coord_def
      bilinear_def lerp_def Let_def algebra_simps)

lemma scale_row:
  assumes "k \<le> nat dstW"
  shows "length (fold (scale_pixel F src scale srcW srcH dstW dstH y) [0..<k] out) = length out
    \<and> (\<forall>idx < length out.
         fold (scale_pixel F src scale srcW srcH dstW dstH y) [0..<k] out ! idx =
           (if y * nat dstW \<le> idx \<and> idx < y * nat dstW + k
            then scale_value F src scale srcW srcH dstW dstH y (idx - y * nat dstW)
            else out ! idx))"
  using assms
proof (induction k)
  case 0
  show ?case by auto
next
  case (Suc k)
  let ?prev = "fold (scale_pixel F src scale srcW srcH dstW dstH y) [0..<k] out"
  have IH: "length ?prev = length out"
    "\<And>idx. idx < length out \<Longrightarrow> ?prev ! idx =
           (if y * nat dstW \<le> idx \<and> idx < y * nat dstW + k
            then scale_value F src scale srcW srcH dstW dstH y (idx - y * nat dstW)
            else out ! idx)"
    using Suc by simp_all
  have step: "fold (scale_pixel F src scale srcW srcH dstW dstH y) [0..<Suc k] out =
      ?prev[y * nat dstW + k := scale_value F src scale srcW srcH dstW dstH y k]"
    by (simp add: scale_pixel_update)
  have "?prev[y * nat dstW + k := scale_value F src scale srcW srcH dstW dstH y k] ! idx =
           (if y * nat dstW \<le> idx \<and> idx < y * nat dstW + Suc k
            then scale_value F src scale srcW srcH dstW dstH y (idx - y * nat dstW)
            else out ! idx)" if idx: "idx < length out" for idx
  proof (cases "idx = y * nat dstW + k")
    case True
    then show ?thesis
      using idx IH(1) by simp
  next
    case False
    then have "?prev[y * nat dstW + k := scale_value F src scale srcW srcH dstW dstH y k] ! idx
        = ?prev ! idx"
      by simp
    moreover have "idx < y * nat dstW + Suc k \<longleftrightarrow> idx < y * nat dstW + k"
      using False by auto
    ultimately show ?thesis
      using IH(2) [OF idx] by simp
  qed
  then show ?case
    unfolding step using IH(1) by simp
qed

lemma scale_rows:
  assumes "h \<le> nat dstH" and "length out = nat dstW * nat dstH"
  shows "length (fold (\<lambda>y. fold (scale_pixel F src scale srcW srcH dstW dstH y) [0..<nat dstW]) [0..<h] out)
      = length out
    \<and> (\<forall>y < h. \<forall>x < nat dstW.
         fold (\<lambda>y. fold (scale_pixel F src scale srcW srcH dstW dstH y) [0..<nat dstW]) [0..<h] out
           ! (y * nat dstW + x) = scale_value F src scale srcW srcH dstW dstH y x)"
  using assms(1)
proof (induction h)
  case 0
  show ?case by simp
next
  case (Suc h)
  let ?w = "nat dstW"
  let ?prev = "fold (\<lambda>y. fold (scale_pixel F src scale srcW srcH dstW dstH y) [0..<?w]) [0..<h] out"
  have IH: "length ?prev = length out"
    "\<And>y x. y < h \<Longrightarrow> x < ?w \<Longrightarrow> ?prev ! (y * ?w + x) = scale_value F src scale srcW srcH dstW dstH y x"
    using Suc by simp_all
  have step: "fold (\<lambda>y. fold (scale_pixel F src scale srcW srcH dstW dstH y) [0..<?w]) [0..<Suc h] out
      = fold (scale_pixel F src scale srcW srcH dstW dstH h) [0..<?w] ?prev"
    by simp
  note row = scale_row [of ?w dstW F src scale srcW srcH dstH h ?prev, simplified]
  have len: "length (fold (scale_pixel F src scale srcW srcH dstW dstH h) [0..<?w] ?prev) = length out"
    using row IH(1) by simp
  have val: "fold (scale_pixel F src scale srcW srcH dstW dstH h) [0..<?w] ?prev ! (y * ?w + x)
      = scale_value F src scale srcW srcH dstW dstH y x" if y: "y < Suc h" and x: "x < ?w" for y x
  proof -
    have "y * ?w + x < Suc h * ?w"
      using flat_index_less [of y "Suc h" x ?w] y x by simp
    also have "\<dots> \<le> nat dstH * ?w"
      using Suc.prems by (intro mult_le_mono1)
    finally have idx: "y * ?w + x < length ?prev"
      using IH(1) assms(2) by (simp add: mult.commute)
    have r: "fold (scale_pixel F src scale srcW srcH dstW dstH h) [0..<?w] ?prev ! (y * ?w + x) =
           (if h * ?w \<le> y * ?w + x \<and> y * ?w + x < h * ?w + ?w
            then scale_value F src scale srcW srcH dstW dstH h (y * ?w + x - h * ?w)
            else ?prev ! (y * ?w + x))"
      using row idx by blast
    show ?thesis
    proof (cases "y = h")
      case True
      then show ?thesis
        using r x by simp
    next
      case False
      then have lt: "y < h" using y by simp
      have "y * ?w + x < h * ?w"
        using flat_index_less [of y h x ?w] lt x by simp
      then show ?thesis
        using r IH(2) [OF lt x] by simp
    qed
  qed
  show ?case
    unfolding step using len val by blast
qed

lemma scaleImage_nth:
  assumes "x < nat dstW" and "y < nat dstH"
  shows "scaleImage F src scale srcW srcH dstW dstH ! (y * nat dstW + x)
      = scale_value F src scale srcW srcH dstW dstH y x"
    and "length (scaleImage F src scale srcW srcH dstW dstH) = nat (dstW * dstH)"
proof -
  have pos: "0 \<le> dstW" "0 \<le> dstH"
    using assms by simp_all
  have len: "length (replicate (nat (dstW * dstH)) (fof_int F 0)) = nat dstW * nat dstH"
    using pos by (simp add: nat_mult_distrib)
  note rows = scale_rows [OF order_refl len, of F src scale srcW srcH]
  show "scaleImage F src scale srcW srcH dstW dstH ! (y * nat dstW + x)
      = scale_value F src scale srcW srcH dstW dstH y x"
    unfolding scaleImage_def Let_def using rows assms by blast
  show "length (scaleImage F src scale srcW srcH dstW dstH) = nat (dstW * dstH)"
    unfolding scaleImage_def Let_def using rows by simp
qed

text \<open>
  C2, as the code has it. For a source image of width \<open>W\<close> and height \<open>H\<close> and a
  destination pixel \<open>(x, y)\<close> with source coordinate \<open>(sx, sy)\<close>: when \<open>sx < 0\<close> or
  \<open>sx \<ge> W - 1\<close> or \<open>sy < 0\<close> or \<open>sy \<ge> H - 1\<close>, the pixel is \<open>0.0f\<close>; otherwise it is the
  bilinear interpolation of the four neighbouring source pixels with the weights
  \<open>wx = sx - floor(sx)\<close> and \<open>wy = sy - floor(sy)\<close>. The region that is interpolated is
  \<open>[0, W-1) \<times> [0, H-1)\<close>.
\<close>

theorem scaleImage_pixel:
  assumes "int (length src) = srcW * srcH" and "x < nat dstW" and "y < nat dstH"
  shows "length (scaleImage F src scale srcW srcH dstW dstH) = nat (dstW * dstH)
    \<and> scaleImage F src scale srcW srcH dstW dstH ! (y * nat dstW + x) =
       (if outside_half_open_region F (src_coord F scale srcW dstW x) (src_coord F scale srcH dstH y) srcW srcH
        then fof_int F 0
        else bilinear F src srcW (src_coord F scale srcW dstW x) (src_coord F scale srcH dstH y))"
  using scaleImage_nth [OF assms(2,3), of F src scale srcW srcH] by (simp add: scale_value_def)

section \<open>scaleImage on concrete images\<close>

theorem scaleImage_pixel_witness:
  "int (length [1, 1, 1, 1 :: real]) = 2 * 2 \<and> (0 :: nat) < nat 1
   \<and> length (scaleImage exact_ops [1, 1, 1, 1] 1 2 2 1 1) = nat (1 * 1)
   \<and> scaleImage exact_ops [1, 1, 1, 1] 1 2 2 1 1 ! (0 * nat 1 + 0) = 1"
proof -
  have h1: "int (length [1, 1, 1, 1 :: real]) = 2 * 2" by simp
  have h2: "(0 :: nat) < nat 1" by simp
  have c: "src_coord exact_ops 1 2 1 0 = 1 / 2"
    by (simp add: src_coord_def exact_ops_def)
  have inside: "\<not> outside_half_open_region exact_ops (1 / 2) (1 / 2) 2 2"
    by (simp add: outside_half_open_region_def exact_ops_def)
  have v: "bilinear exact_ops [1, 1, 1, 1] 2 (1 / 2) (1 / 2) = 1"
    by (simp add: bilinear_def lerp_def exact_ops_def)
  show ?thesis
    using scaleImage_pixel [OF h1 h2 h2, where F = exact_ops and scale = 1] h1 h2
    by (simp add: c inside v)
qed

text \<open>
  C2, as the specification has it, fails. A two by two image of ones scaled by \<open>1.0\<close>
  to a single pixel: the source coordinate is \<open>(0.5, 0.5)\<close>, outside \<open>[0, 0] \<times> [0, 0]\<close>,
  and the pixel is \<open>1.0\<close>. A 28 by 28 image of ones scaled by \<open>0.5\<close>: the pixel
  \<open>(20, 13)\<close> has the source coordinate \<open>(26.5, 12.5)\<close>, outside \<open>[0, 26] \<times> [0, 26]\<close>, and
  is \<open>1.0\<close>. Every number here is a single-precision float and so is every
  intermediate result.
\<close>

theorem scaleImage_closed_region_counterexample:
  "src_coord exact_ops 1 2 1 0 = 1 / 2
   \<and> outside_closed_region exact_ops (src_coord exact_ops 1 2 1 0) (src_coord exact_ops 1 2 1 0) 2 2
   \<and> scaleImage exact_ops [1, 1, 1, 1] 1 2 2 1 1 = [1]
   \<and> scaleImage exact_ops [1, 1, 1, 1] 1 2 2 1 1 ! 0 \<noteq> fof_int exact_ops 0
   \<and> src_coord exact_ops (1 / 2) 28 28 20 = 53 / 2
   \<and> src_coord exact_ops (1 / 2) 28 28 13 = 25 / 2
   \<and> outside_closed_region exact_ops (src_coord exact_ops (1 / 2) 28 28 20)
        (src_coord exact_ops (1 / 2) 28 28 13) 28 28
   \<and> scaleImage exact_ops (replicate 784 1) (1 / 2) 28 28 28 28 ! (13 * 28 + 20) = 1
   \<and> scaleImage exact_ops (replicate 784 1) (1 / 2) 28 28 28 28 ! (13 * 28 + 20) \<noteq> fof_int exact_ops 0"
proof -
  have c: "src_coord exact_ops 1 2 1 0 = 1 / 2"
    by (simp add: src_coord_def exact_ops_def)
  have o: "outside_closed_region exact_ops (1 / 2) (1 / 2) 2 2"
    by (simp add: outside_closed_region_def exact_ops_def)
  have s: "scaleImage exact_ops [1, 1, 1, 1] 1 2 2 1 1 = [1]"
    by (simp add: scaleImage_def scale_pixel_def exact_ops_def Let_def)
  have cx: "src_coord exact_ops (1 / 2) 28 28 20 = 53 / 2"
    and cy: "src_coord exact_ops (1 / 2) 28 28 13 = 25 / 2"
    by (simp_all add: src_coord_def exact_ops_def)
  have o28: "outside_closed_region exact_ops (53 / 2) (25 / 2) 28 28"
    by (simp add: outside_closed_region_def exact_ops_def)
  have inside: "\<not> outside_half_open_region exact_ops (53 / 2) (25 / 2) 28 28"
    by (simp add: outside_half_open_region_def exact_ops_def)
  have v: "bilinear exact_ops (replicate 784 1) 28 (53 / 2) (25 / 2) = 1"
    by (simp add: bilinear_def lerp_def exact_ops_def)
  have "scaleImage exact_ops (replicate 784 1) (1 / 2) 28 28 28 28 ! (13 * nat 28 + 20)
      = scale_value exact_ops (replicate 784 1) (1 / 2) 28 28 28 28 13 20"
    by (rule scaleImage_nth) simp_all
  then have s28: "scaleImage exact_ops (replicate 784 1) (1 / 2) 28 28 28 28 ! (13 * 28 + 20) = 1"
    by (simp add: scale_value_def cx cy inside v)
  have z: "fof_int exact_ops 0 = 0"
    by (simp add: exact_ops_def)
  show ?thesis
    unfolding c cx cy s s28 z using o o28 by simp
qed


end
